theory Spec2Isabelle
  imports Main "HOL-Library.AList"
begin

section \<open>The secret agent of app-config: \<^verbatim>\<open>src/app-config/src/secret-agent.ts\<close>\<close>

text \<open>
  A shallow embedding of the agent's transport resolver (\<^verbatim>\<open>getAgentOptions\<close>), the
  client connection handle built by \<^verbatim>\<open>connectAgent\<close>, the process-wide connection
  pool (\<^verbatim>\<open>clients\<close>, \<^verbatim>\<open>connectAgentLazy\<close>, \<^verbatim>\<open>disconnectAgents\<close>) and the close
  method that \<^verbatim>\<open>startAgent\<close> installs on the server.

  Conventions.
  \<^item> A JavaScript string is the list of its UTF-16 code units (\<open>js_string\<close>);
    \<open>js ''abc''\<close> writes an ASCII literal.
  \<^item> An awaited promise is described by how it settles (\<open>outcome\<close>): it is fulfilled
    with a result, rejected with an error, or it never settles.
  \<^item> Mutable closure variables and module-level variables are fields of explicit state
    records, returned updated.
\<close>

subsection \<open>Values\<close>

type_synonym js_string = "nat list"

definition js :: "string \<Rightarrow> js_string" where
  "js s = map of_char s"

text \<open>
  Port numbers are JavaScript numbers. The model keeps the integers and \<open>NaN\<close>; these
  are enough to tell a truthy number from a falsy one (\<open>0\<close> and \<open>NaN\<close> are the falsy
  numbers).
\<close>

datatype number = Num int | NaN

definition truthy :: "number \<Rightarrow> bool" where
  "truthy n = (case n of Num i \<Rightarrow> i \<noteq> 0 | NaN \<Rightarrow> False)"

text \<open>
  The result of \<^verbatim>\<open>parseFloat\<close>: \<open>NotANumber\<close>, or the number read from a decimal
  literal. The number is represented by the literal it was read from (the longest
  prefix of the input that is a \<^verbatim>\<open>StrDecimalLiteral\<close>); no statement below depends on
  its floating-point value.
\<close>

datatype parsed = NotANumber | Literal js_string

text \<open>\<^verbatim>\<open>type ConnectionOptions = { port: number } | { socket: string }\<close>\<close>

datatype ConnectionOptions = Port number | Socket js_string

datatype error =
    InvalidRevision "js_string option"
  | KeyNotFound parsed
  | ConnectionClosed
  | TransportFailure nat
  | ServerNotRunning
  | RemoteFailure nat
  | SettingsFailure nat

datatype 'a outcome = Fulfilled 'a | Rejected error | NeverSettles

subsection \<open>Settings collaborator\<close>

text \<open>
  \<^verbatim>\<open>settings.secretAgent\<close> is an optional record with an optional \<^verbatim>\<open>port\<close>; the other
  fields of both records are carried along unread (\<open>sa_rest\<close>, \<open>settings_rest\<close>), so that
  the object spreads \<^verbatim>\<open>{...settings, secretAgent: {...settings.secretAgent, port}}\<close> are
  record updates.
\<close>

record secret_agent_settings =
  sa_port :: "number option"
  sa_rest :: "(string \<times> string) list"

record settings =
  secretAgent :: "secret_agent_settings option"
  settings_rest :: "(string \<times> string) list"

record store =
  persisted :: settings
  writes :: "settings list"
  load_error :: "error option"
  save_error :: "error option"

text \<open>
  Modelled from the spec: \<^verbatim>\<open>loadSettingsLazy\<close> and \<^verbatim>\<open>saveSettings\<close> live in
  \<^verbatim>\<open>./settings\<close>, which is not among the sources. Section 6: read returns the current
  settings, write persists the update; either may fail, and the failure propagates.
  \<open>writes\<close> records every settings object handed to \<^verbatim>\<open>saveSettings\<close>.
\<close>

definition loadSettingsLazy :: "store \<Rightarrow> error + settings" where
  "loadSettingsLazy st = (case load_error st of Some e \<Rightarrow> Inl e | None \<Rightarrow> Inr (persisted st))"

definition saveSettings :: "settings \<Rightarrow> store \<Rightarrow> (error + unit) \<times> store" where
  "saveSettings s st =
     (case save_error st of
        Some e \<Rightarrow> (Inl e, st)
      | None \<Rightarrow> (Inr (), st\<lparr>persisted := s, writes := writes st @ [s]\<rparr>))"

subsection \<open>Transport resolver: \<^verbatim>\<open>getAgentOptions\<close>\<close>

definition defaultPort :: number where
  "defaultPort = Num 42938"

text \<open>\<^verbatim>\<open>'port' in settings.secretAgent && settings.secretAgent.port\<close>\<close>

definition configured_port :: "secret_agent_settings \<Rightarrow> number option" where
  "configured_port sa =
     (case sa_port sa of
        Some p \<Rightarrow> if truthy p then Some p else None
      | None \<Rightarrow> None)"

fun getAgentOptions :: "ConnectionOptions option \<Rightarrow> store \<Rightarrow> (error + ConnectionOptions) \<times> store" where
  "getAgentOptions (Some override) st = (Inr override, st)"
| "getAgentOptions None st =
     (case loadSettingsLazy st of
        Inl e \<Rightarrow> (Inl e, st)
      | Inr settings \<Rightarrow>
          (case secretAgent settings of
             Some sa \<Rightarrow>
               (case configured_port sa of
                  Some p \<Rightarrow> (Inr (Port p), st)
                | None \<Rightarrow>
                    (case saveSettings
                            (settings\<lparr>secretAgent := Some (sa\<lparr>sa_port := Some defaultPort\<rparr>)\<rparr>) st of
                       (Inl e, st') \<Rightarrow> (Inl e, st')
                     | (Inr u, st') \<Rightarrow> (Inr (Port defaultPort), st')))
           | None \<Rightarrow> (Inr (Port defaultPort), st)))"

text \<open>Three stores used as concrete inputs.\<close>

definition store_of :: "secret_agent_settings option \<Rightarrow> store" where
  "store_of sa =
     \<lparr>persisted = \<lparr>secretAgent = sa, settings_rest = [(''team'', ''core'')]\<rparr>,
      writes = [], load_error = None, save_error = None\<rparr>"

definition sa_with :: "number option \<Rightarrow> secret_agent_settings" where
  "sa_with p = \<lparr>sa_port = p, sa_rest = [(''cert'', ''pem'')]\<rparr>"

subsection \<open>Strings: \<^verbatim>\<open>split\<close> and \<^verbatim>\<open>parseFloat\<close>\<close>

text \<open>\<^verbatim>\<open>text.split(':')\<close>: the segments between the separators; never an empty array.\<close>

fun split_on :: "nat \<Rightarrow> js_string \<Rightarrow> js_string list" where
  "split_on sep [] = [[]]"
| "split_on sep (c # cs) =
     (if c = sep then [] # split_on sep cs
      else (case split_on sep cs of
              seg # segs \<Rightarrow> (c # seg) # segs
            | [] \<Rightarrow> [[c]]))"

text \<open>Indexing an array: \<^verbatim>\<open>undefined\<close> (here \<open>None\<close>) out of range.\<close>

definition element_at :: "'a list \<Rightarrow> nat \<Rightarrow> 'a option" where
  "element_at xs i = (if i < length xs then Some (xs ! i) else None)"

text \<open>\<^verbatim>\<open>ToString\<close> of a \<^verbatim>\<open>string | undefined\<close>, which \<^verbatim>\<open>parseFloat\<close> applies to its argument.\<close>

definition to_string :: "js_string option \<Rightarrow> js_string" where
  "to_string v = (case v of Some s \<Rightarrow> s | None \<Rightarrow> js ''undefined'')"

text \<open>The code units ECMAScript counts as \<^verbatim>\<open>WhiteSpace\<close> or \<^verbatim>\<open>LineTerminator\<close>.\<close>

definition is_white_space :: "nat \<Rightarrow> bool" where
  "is_white_space c =
     (c \<in> {9, 10, 11, 12, 13, 32, 160, 5760, 8232, 8233, 8239, 8287, 12288, 65279}
      \<or> (8192 \<le> c \<and> c \<le> 8202))"

definition is_digit :: "nat \<Rightarrow> bool" where
  "is_digit c = (48 \<le> c \<and> c \<le> 57)"

text \<open>
  The longest prefix that is an \<^verbatim>\<open>ExponentPart\<close> (\<^verbatim>\<open>e\<close> or \<^verbatim>\<open>E\<close>, an optional sign, at
  least one digit), or nothing.
\<close>

definition exponent_part :: "js_string \<Rightarrow> js_string" where
  "exponent_part s =
     (case s of
        [] \<Rightarrow> []
      | e # r \<Rightarrow>
          if e = 101 \<or> e = 69 then
            (case r of
               [] \<Rightarrow> []
             | sg # r' \<Rightarrow>
                 if sg = 43 \<or> sg = 45 then
                   (if takeWhile is_digit r' = [] then [] else e # sg # takeWhile is_digit r')
                 else
                   (if takeWhile is_digit r = [] then [] else e # takeWhile is_digit r))
          else [])"

text \<open>
  The longest prefix that is a \<^verbatim>\<open>StrUnsignedDecimalLiteral\<close>: \<^verbatim>\<open>Infinity\<close>, digits with an
  optional fraction and exponent, or a dot followed by digits and an optional exponent.
\<close>

definition unsigned_prefix :: "js_string \<Rightarrow> js_string option" where
  "unsigned_prefix s =
     (if take 8 s = js ''Infinity'' then Some (js ''Infinity'')
      else if takeWhile is_digit s \<noteq> [] then
        (case dropWhile is_digit s of
           [] \<Rightarrow> Some (takeWhile is_digit s)
         | d # r \<Rightarrow>
             if d = 46 then
               Some (takeWhile is_digit s @ [46] @ takeWhile is_digit r
                     @ exponent_part (dropWhile is_digit r))
             else Some (takeWhile is_digit s @ exponent_part (d # r)))
      else
        (case s of
           [] \<Rightarrow> None
         | d # r \<Rightarrow>
             if d = 46 \<and> takeWhile is_digit r \<noteq> [] then
               Some ([46] @ takeWhile is_digit r @ exponent_part (dropWhile is_digit r))
             else None))"

definition str_decimal_prefix :: "js_string \<Rightarrow> js_string option" where
  "str_decimal_prefix s =
     (case s of
        [] \<Rightarrow> None
      | c # r \<Rightarrow>
          if c = 43 \<or> c = 45 then map_option ((#) c) (unsigned_prefix r)
          else unsigned_prefix s)"

text \<open>
  \<^verbatim>\<open>parseFloat\<close>: leading white space is skipped; \<open>NotANumber\<close> when no prefix of the rest
  is a decimal literal.
\<close>

definition parseFloat :: "js_string \<Rightarrow> parsed" where
  "parseFloat s =
     (case str_decimal_prefix (dropWhile is_white_space s) of
        None \<Rightarrow> NotANumber
      | Some lit \<Rightarrow> Literal lit)"

text \<open>\<^verbatim>\<open>Number.isNaN\<close> on the result of \<^verbatim>\<open>parseFloat\<close>.\<close>

definition isNaN :: "parsed \<Rightarrow> bool" where
  "isNaN n = (case n of NotANumber \<Rightarrow> True | Literal lit \<Rightarrow> False)"

text \<open>
  What the input of \<^verbatim>\<open>parseFloat\<close> has to start with, after its white space, for the
  result to be a number: an optional sign, then a digit, a dot and a digit, or
  \<^verbatim>\<open>Infinity\<close>.
\<close>

definition starts_unsigned :: "js_string \<Rightarrow> bool" where
  "starts_unsigned s =
     (take 8 s = js ''Infinity''
      \<or> (case s of
            [] \<Rightarrow> False
          | d # r \<Rightarrow> is_digit d \<or> (d = 46 \<and> (case r of [] \<Rightarrow> False | f # r' \<Rightarrow> is_digit f))))"

definition starts_with_number :: "js_string \<Rightarrow> bool" where
  "starts_with_number s =
     (case dropWhile is_white_space s of
        [] \<Rightarrow> False
      | c # r \<Rightarrow> if c = 43 \<or> c = 45 then starts_unsigned r else starts_unsigned (c # r))"

text \<open>
  The specification's reading of a numeric revision segment: the segment is present and
  the whole of it is a decimal literal.
\<close>

definition numeric_segment :: "js_string option \<Rightarrow> bool" where
  "numeric_segment seg =
     (case seg of None \<Rightarrow> False | Some s \<Rightarrow> str_decimal_prefix s = Some s)"

subsection \<open>RPC protocol\<close>

datatype json =
    JNull
  | JBool bool
  | JNumber int
  | JString js_string
  | JArray "json list"
  | JObject "(js_string \<times> json) list"

record EncryptedSymmetricKey =
  revision :: int
  key :: js_string

text \<open>The three message kinds of \<^verbatim>\<open>Messages\<close>, with their request payloads.\<close>

datatype request =
    PingRequest
  | DecryptRequest js_string EncryptedSymmetricKey
  | EncryptRequest json EncryptedSymmetricKey

text \<open>
  What surrounds a connection: the injected key loader (\<^verbatim>\<open>loadEncryptedKey\<close>) and the
  replies of the agent at the other end, one per message kind.
\<close>

record env =
  loadEncryptedKey :: "parsed \<Rightarrow> EncryptedSymmetricKey outcome"
  reply_ping :: "unit outcome"
  reply_decrypt :: "js_string \<Rightarrow> EncryptedSymmetricKey \<Rightarrow> json outcome"
  reply_encrypt :: "json \<Rightarrow> EncryptedSymmetricKey \<Rightarrow> js_string outcome"

subsection \<open>Client connection: the handle returned by \<^verbatim>\<open>connectAgent\<close>\<close>

text \<open>\<^verbatim>\<open>closeTimeoutMs\<close>: \<^verbatim>\<open>Infinity\<close> or a number of milliseconds.\<close>

datatype timeout = Infinity | Millis nat

text \<open>
  The closure of the handle: \<open>isClosed\<close> and \<open>closeTimeout\<close> are the variables of the same
  names (the method \<^verbatim>\<open>isClosed()\<close> returns the former; \<open>closeTimeout\<close> holds the
  milliseconds left on the pending timer, \<open>None\<close> when no timer is pending);
  \<open>transport_open\<close> and \<open>close_error\<close> describe the \<^verbatim>\<open>Client\<close> of the RPC library (whether
  its socket is open, and the error that closing it reports, if it reports one). \<open>sent\<close> lists the requests issued through \<^verbatim>\<open>client.call\<close>, \<open>key_loads\<close> the
  revisions the key loader was invoked with.
\<close>

record connection =
  isClosed :: bool
  closeTimeoutMs :: timeout
  closeTimeout :: "nat option"
  endpoint :: ConnectionOptions
  transport_open :: bool
  close_error :: "error option"
  sent :: "request list"
  key_loads :: "parsed list"

text \<open>The state in which \<^verbatim>\<open>connectAgent\<close> hands the connection out.\<close>

definition new_connection :: "timeout \<Rightarrow> ConnectionOptions \<Rightarrow> connection" where
  "new_connection t options =
     \<lparr>isClosed = False, closeTimeoutMs = t, closeTimeout = None, endpoint = options,
      transport_open = True, close_error = None, sent = [], key_loads = []\<rparr>"

text \<open>\<^verbatim>\<open>client.onClose(() => { isClosed = true; })\<close>\<close>

definition on_close :: "connection \<Rightarrow> connection" where
  "on_close c = c\<lparr>isClosed := True\<rparr>"

text \<open>
  Modelled from the spec: \<^verbatim>\<open>Client\<close> of \<^verbatim>\<open>@lcdev/ws-rpc\<close> is not among the sources.
  Section 4.4: closing tears down the transport and is idempotent, so that closing a
  transport that has ended is a no-op that succeeds; a call made while the transport has
  ended fails with a connection-closed error. The close handlers run when the transport
  goes from open to closed. Section 4.5 speaks of a close that fails: \<open>close_error\<close> is
  the error that tearing down the open transport reports, if it reports one; the
  transport is torn down all the same, as section 4.4 requires of every close.
\<close>

definition client_close :: "connection \<Rightarrow> unit outcome \<times> connection" where
  "client_close c =
     (if transport_open c then
        (case close_error c of
           None \<Rightarrow> (Fulfilled (), on_close (c\<lparr>transport_open := False\<rparr>))
         | Some e \<Rightarrow> (Rejected e, on_close (c\<lparr>transport_open := False\<rparr>)))
      else (Fulfilled (), c))"

definition client_call :: "'a outcome \<Rightarrow> request \<Rightarrow> connection \<Rightarrow> 'a outcome \<times> connection" where
  "client_call reply req c =
     (if transport_open c then (reply, c\<lparr>sent := sent c @ [req]\<rparr>)
      else (Rejected ConnectionClosed, c))"

text \<open>The far end, or the network, ends the connection.\<close>

definition remote_disconnect :: "connection \<Rightarrow> connection" where
  "remote_disconnect c =
     (if transport_open c then on_close (c\<lparr>transport_open := False\<rparr>) else c)"

text \<open>
  \<^verbatim>\<open>keepAlive\<close>: clear the pending timer; unless the timeout is \<^verbatim>\<open>Infinity\<close>, start a new
  one.
\<close>

definition keepAlive :: "connection \<Rightarrow> connection" where
  "keepAlive c =
     (let c1 = (if closeTimeout c \<noteq> None then c\<lparr>closeTimeout := None\<rparr> else c)
      in case closeTimeoutMs c1 of
           Infinity \<Rightarrow> c1
         | Millis ms \<Rightarrow> c1\<lparr>closeTimeout := Some ms\<rparr>)"

text \<open>The timer's callback: \<^verbatim>\<open>client.close().finally(...)\<close>; its result goes nowhere.\<close>

definition timer_fires :: "connection \<Rightarrow> connection" where
  "timer_fires c = snd (client_close (c\<lparr>closeTimeout := None\<rparr>))"

text \<open>\<open>n\<close> milliseconds pass without a call.\<close>

definition elapse :: "nat \<Rightarrow> connection \<Rightarrow> connection" where
  "elapse n c =
     (case closeTimeout c of
        None \<Rightarrow> c
      | Some left \<Rightarrow> if n < left then c\<lparr>closeTimeout := Some (left - n)\<rparr> else timer_fires c)"

text \<open>The methods of the handle.\<close>

definition close :: "connection \<Rightarrow> unit outcome \<times> connection" where
  "close c = client_close (c\<lparr>isClosed := True\<rparr>)"

definition ping :: "env \<Rightarrow> connection \<Rightarrow> unit outcome \<times> connection" where
  "ping e c = client_call (reply_ping e) PingRequest (keepAlive c)"

definition colon :: nat where
  "colon = 58"

definition decryptValue :: "env \<Rightarrow> js_string \<Rightarrow> connection \<Rightarrow> json outcome \<times> connection" where
  "decryptValue e text c =
     (let c1 = keepAlive c;
          revision = element_at (split_on colon text) 1;
          revisionNumber = parseFloat (to_string revision)
      in if isNaN revisionNumber then (Rejected (InvalidRevision revision), c1)
         else
           (let c2 = c1\<lparr>key_loads := key_loads c1 @ [revisionNumber]\<rparr>
            in case loadEncryptedKey e revisionNumber of
                 Rejected err \<Rightarrow> (Rejected err, c2)
               | NeverSettles \<Rightarrow> (NeverSettles, c2)
               | Fulfilled symmetricKey \<Rightarrow>
                   (case client_call (reply_decrypt e text symmetricKey)
                           (DecryptRequest text symmetricKey) c2 of
                      (Fulfilled decrypted, c3) \<Rightarrow> (Fulfilled decrypted, keepAlive c3)
                    | (Rejected err, c3) \<Rightarrow> (Rejected err, c3)
                    | (NeverSettles, c3) \<Rightarrow> (NeverSettles, c3))))"

definition encryptValue ::
  "env \<Rightarrow> json \<Rightarrow> EncryptedSymmetricKey \<Rightarrow> connection \<Rightarrow> js_string outcome \<times> connection" where
  "encryptValue e v symmetricKey c =
     (case client_call (reply_encrypt e v symmetricKey) (EncryptRequest v symmetricKey)
             (keepAlive c) of
        (Fulfilled encoded, c1) \<Rightarrow> (Fulfilled encoded, keepAlive c1)
      | (Rejected err, c1) \<Rightarrow> (Rejected err, c1)
      | (NeverSettles, c1) \<Rightarrow> (NeverSettles, c1))"

text \<open>What can happen to a connection, one event after the other.\<close>

datatype event =
    CallPing
  | CallDecrypt js_string
  | CallEncrypt json EncryptedSymmetricKey
  | CallClose
  | TimePasses nat
  | RemoteDisconnects

fun occurs :: "env \<Rightarrow> connection \<Rightarrow> event \<Rightarrow> connection" where
  "occurs e c CallPing = snd (ping e c)"
| "occurs e c (CallDecrypt text) = snd (decryptValue e text c)"
| "occurs e c (CallEncrypt v k) = snd (encryptValue e v k c)"
| "occurs e c CallClose = snd (close c)"
| "occurs e c (TimePasses n) = elapse n c"
| "occurs e c RemoteDisconnects = remote_disconnect c"

definition run_events :: "env \<Rightarrow> event list \<Rightarrow> connection \<Rightarrow> connection" where
  "run_events e evs c = foldl (occurs e) c evs"

text \<open>
  Three states of a connection that the properties below follow through the events:
  no timer can be pending (\<open>never_timed\<close>), the connection is in use (\<open>is_open\<close>), and
  the connection has been closed for good (\<open>shut\<close>).
\<close>

definition never_timed :: "connection \<Rightarrow> bool" where
  "never_timed c = (closeTimeoutMs c = Infinity \<and> closeTimeout c = None)"

definition is_open :: "connection \<Rightarrow> bool" where
  "is_open c = (transport_open c \<and> \<not> isClosed c)"

definition shut :: "connection \<Rightarrow> bool" where
  "shut c = (isClosed c \<and> \<not> transport_open c)"

definition example_events :: "event list" where
  "example_events = [CallPing, TimePasses 1000000, CallDecrypt (js ''scheme:12:x''), TimePasses 7]"

text \<open>
  Two environments and two connections used as concrete inputs. The key loader of the
  first answers every revision with one and the same key, the key loader of the second
  finds no key for any revision (a key store that is empty); neither has to compare
  numbers.
\<close>

definition example_env :: env where
  "example_env =
     \<lparr>loadEncryptedKey = (\<lambda>r. Fulfilled \<lparr>revision = 12, key = js ''k12''\<rparr>),
      reply_ping = Fulfilled (),
      reply_decrypt = (\<lambda>text k. Fulfilled (JString text)),
      reply_encrypt = (\<lambda>v k. Fulfilled (js ''enc:12:x''))\<rparr>"

definition keyless_env :: env where
  "keyless_env = example_env\<lparr>loadEncryptedKey := (\<lambda>r. Rejected (KeyNotFound r))\<rparr>"

definition example_connection :: connection where
  "example_connection = new_connection (Millis 500) (Port (Num 9))"

definition stubborn_connection :: connection where
  "stubborn_connection = example_connection\<lparr>close_error := Some (TransportFailure 1)\<rparr>"

subsection \<open>Connection pool: \<^verbatim>\<open>clients\<close>, \<^verbatim>\<open>connectAgentLazy\<close>, \<^verbatim>\<open>disconnectAgents\<close>\<close>

text \<open>
  A call of \<^verbatim>\<open>connectAgent\<close> returns a promise at once; the pool caches that promise.
  The promise is a cell of the store \<open>attempts\<close>, addressed by a handle: still connecting,
  fulfilled with the connection handle, or rejected.
\<close>

datatype attempt =
    Connecting timeout ConnectionOptions
  | Established connection
  | Refused error

text \<open>The key of the pool: \<^verbatim>\<open>'port' in options ? options.port : options.socket\<close>.\<close>

datatype ident = PortKey number | SocketKey js_string

definition ident_of :: "ConnectionOptions \<Rightarrow> ident" where
  "ident_of options = (case options of Port p \<Rightarrow> PortKey p | Socket path \<Rightarrow> SocketKey path)"

datatype pool_event = Evicted ident | CloseCalled nat

text \<open>
  The module's state. \<open>clients\<close> is the \<^verbatim>\<open>Map\<close> in insertion order, with
  \<^verbatim>\<open>has\<close>/\<^verbatim>\<open>get\<close> as \<open>map_of\<close>, \<^verbatim>\<open>set\<close> as \<open>AList.update\<close> (an existing key keeps its
  place, a new key goes last) and \<^verbatim>\<open>delete\<close> as \<open>AList.delete\<close>. \<open>started\<close> counts the
  calls of \<^verbatim>\<open>connectAgent\<close>, each of which opens one socket; it is also the next free
  handle. \<open>journal\<close> lists evictions and calls of a handle's \<^verbatim>\<open>close\<close>, in order.
\<close>

record world =
  clients :: "(ident \<times> nat) list"
  attempts :: "nat \<Rightarrow> attempt"
  started :: nat
  settings_store :: store
  journal :: "pool_event list"

text \<open>
  \<^verbatim>\<open>connectAgent(closeTimeoutMs, override)\<close>, up to the promise it returns: the options are
  resolved and a new attempt begins.
\<close>

definition connectAgent :: "timeout \<Rightarrow> ConnectionOptions option \<Rightarrow> world \<Rightarrow> nat \<times> world" where
  "connectAgent t override w =
     (case getAgentOptions override (settings_store w) of
        (Inl e, st) \<Rightarrow>
          (started w,
           w\<lparr>attempts := (attempts w)(started w := Refused e),
             started := Suc (started w), settings_store := st\<rparr>)
      | (Inr options, st) \<Rightarrow>
          (started w,
           w\<lparr>attempts := (attempts w)(started w := Connecting t options),
             started := Suc (started w), settings_store := st\<rparr>))"

text \<open>
  How the environment settles an attempt: \<^verbatim>\<open>waitForConnection\<close> succeeds and the handle is
  built, or connecting fails, or nothing happens.
\<close>

datatype fate = Connects | Fails error | Hangs

definition settle :: "fate \<Rightarrow> nat \<Rightarrow> world \<Rightarrow> world" where
  "settle f h w =
     (if h < started w then
        (case attempts w h of
           Connecting t options \<Rightarrow>
             (case f of
                Connects \<Rightarrow> w\<lparr>attempts := (attempts w)(h := Established (new_connection t options))\<rparr>
              | Fails e \<Rightarrow> w\<lparr>attempts := (attempts w)(h := Refused e)\<rparr>
              | Hangs \<Rightarrow> w)
         | Established c \<Rightarrow> w
         | Refused e \<Rightarrow> w)
      else w)"

text \<open>\<^verbatim>\<open>clients.delete(id)\<close>\<close>

definition evict :: "ident \<Rightarrow> world \<Rightarrow> world" where
  "evict k w = w\<lparr>clients := AList.delete k (clients w), journal := journal w @ [Evicted k]\<rparr>"

text \<open>
  One call of \<^verbatim>\<open>connectAgentLazy\<close> runs in segments, each from one \<^verbatim>\<open>await\<close> to the
  next; within a segment no other code of the process runs. The state of a call:
  \<^item> \<open>Called\<close>: invoked, \<^verbatim>\<open>getAgentOptions(override)\<close> not yet resolved;
  \<^item> \<open>Resolved\<close>: resumed with the options, about to test \<^verbatim>\<open>clients.has(id)\<close>;
  \<^item> \<open>Awaiting\<close>: suspended at \<^verbatim>\<open>await clients.get(id)\<close> on the cached attempt;
  \<^item> \<open>Returned\<close>: returned the connection of the attempt with that handle;
  \<^item> \<open>Thrown\<close>: failed.
  The recursive call \<^verbatim>\<open>connectAgentLazy(closeTimeoutMs, options)\<close> is the state \<open>Called\<close>
  again, with the options as override. \<^verbatim>\<open>getAgentOptions\<close> is taken as one segment
  here: its own \<^verbatim>\<open>await\<close>s touch the settings only, never \<^verbatim>\<open>clients\<close>, and while a call
  runs on its own nothing happens in between (\<open>connectAgentLazy_segment\<close> below takes
  them apart for calls that run together). The segment that finds no
  entry calls \<^verbatim>\<open>connectAgent\<close>, which returns its promise without running any other code,
  and stores that promise before it returns it.
\<close>

datatype lazy_call =
    Called timeout "ConnectionOptions option"
  | Resolved timeout ConnectionOptions
  | Awaiting timeout ConnectionOptions ident nat
  | Returned nat
  | Thrown error

fun connectAgentLazy_step :: "lazy_call \<Rightarrow> world \<Rightarrow> lazy_call \<times> world" where
  "connectAgentLazy_step (Called t override) w =
     (case getAgentOptions override (settings_store w) of
        (Inl e, st) \<Rightarrow> (Thrown e, w\<lparr>settings_store := st\<rparr>)
      | (Inr options, st) \<Rightarrow> (Resolved t options, w\<lparr>settings_store := st\<rparr>))"
| "connectAgentLazy_step (Resolved t options) w =
     (case map_of (clients w) (ident_of options) of
        None \<Rightarrow>
          (case connectAgent t (Some options) w of
             (connection, w1) \<Rightarrow>
               (Returned connection,
                w1\<lparr>clients := AList.update (ident_of options) connection (clients w1)\<rparr>))
      | Some entry \<Rightarrow> (Awaiting t options (ident_of options) entry, w))"
| "connectAgentLazy_step (Awaiting t options k entry) w =
     (case attempts w entry of
        Connecting t' options' \<Rightarrow> (Awaiting t options k entry, w)
      | Refused e \<Rightarrow> (Thrown e, w)
      | Established connection \<Rightarrow>
          if isClosed connection then
            (Called t (Some options), evict k w)
          else (Returned entry, w))"
| "connectAgentLazy_step (Returned h) w = (Returned h, w)"
| "connectAgentLazy_step (Thrown e) w = (Thrown e, w)"

text \<open>A call running on its own for \<open>n\<close> segments.\<close>

fun connectAgentLazy_run :: "nat \<Rightarrow> lazy_call \<Rightarrow> world \<Rightarrow> lazy_call \<times> world" where
  "connectAgentLazy_run 0 c w = (c, w)"
| "connectAgentLazy_run (Suc n) c w =
     (case connectAgentLazy_step c w of (c', w') \<Rightarrow> connectAgentLazy_run n c' w')"

text \<open>
  Several calls in flight. With other calls running in between, the suspensions inside
  \<^verbatim>\<open>getAgentOptions\<close> show: a call without override waits for \<^verbatim>\<open>loadSettingsLazy()\<close> and,
  where it goes on to write the default port, for \<^verbatim>\<open>saveSettings(...)\<close>. A concurrent
  call is in one of these two states or in a state of \<open>lazy_call\<close>:
  \<^item> \<open>Loading\<close>: suspended at \<^verbatim>\<open>await loadSettingsLazy()\<close>, which read the settings (or
    failed) when it was called;
  \<^item> \<open>Saving\<close>: suspended at \<^verbatim>\<open>await saveSettings(...)\<close>, which wrote the settings (or
    failed) when it was called;
  \<^item> \<open>Running (Called t override)\<close>: the call is about to be made; the other states of
    \<open>Running\<close> are as above.
  \<open>connectAgentLazy_segment\<close> runs one call from one suspension to the next. With an
  override \<^verbatim>\<open>getAgentOptions\<close> returns without suspending, and from \<open>Resolved\<close> on the
  segments are those of \<open>connectAgentLazy_step\<close>. When the two functions of \<^verbatim>\<open>./settings\<close>
  read and write lies outside the sources: each is taken to do so when it is called, so
  that two calls without override may both find the settings without a port, and both
  write.
\<close>

datatype concurrent_call =
    Loading timeout "error + settings"
  | Saving timeout "error + unit"
  | Running lazy_call

fun connectAgentLazy_segment :: "concurrent_call \<Rightarrow> world \<Rightarrow> concurrent_call \<times> world" where
  "connectAgentLazy_segment (Running (Called t None)) w =
     (Loading t (loadSettingsLazy (settings_store w)), w)"
| "connectAgentLazy_segment (Loading t (Inl e)) w = (Running (Thrown e), w)"
| "connectAgentLazy_segment (Loading t (Inr settings)) w =
     (case secretAgent settings of
        Some sa \<Rightarrow>
          (case configured_port sa of
             Some p \<Rightarrow> (Running (Resolved t (Port p)), w)
           | None \<Rightarrow>
               (case saveSettings
                       (settings\<lparr>secretAgent := Some (sa\<lparr>sa_port := Some defaultPort\<rparr>)\<rparr>)
                       (settings_store w) of
                  (r, st') \<Rightarrow> (Saving t r, w\<lparr>settings_store := st'\<rparr>)))
      | None \<Rightarrow> (Running (Resolved t (Port defaultPort)), w))"
| "connectAgentLazy_segment (Saving t (Inl e)) w = (Running (Thrown e), w)"
| "connectAgentLazy_segment (Saving t (Inr u)) w = (Running (Resolved t (Port defaultPort)), w)"
| "connectAgentLazy_segment (Running c) w =
     (case connectAgentLazy_step c w of (c', w') \<Rightarrow> (Running c', w'))"

text \<open>
  The event loop resumes one of the calls for a segment (\<open>Resume\<close>), or the environment
  settles an attempt (\<open>Settle\<close>), in any order.
\<close>

datatype action = Resume nat | Settle nat fate

fun perform :: "concurrent_call list \<times> world \<Rightarrow> action \<Rightarrow> concurrent_call list \<times> world" where
  "perform (calls, w) (Resume i) =
     (if i < length calls then
        (case connectAgentLazy_segment (calls ! i) w of (c', w') \<Rightarrow> (calls[i := c'], w'))
      else (calls, w))"
| "perform (calls, w) (Settle h f) = (calls, settle f h w)"

definition interleave ::
  "action list \<Rightarrow> concurrent_call list \<times> world \<Rightarrow> concurrent_call list \<times> world" where
  "interleave acts s = foldl perform s acts"

text \<open>
  \<^verbatim>\<open>disconnectAgents\<close>. The loop deletes the entry it visits, so the entry the iterator
  yields next is always the first one left in the map. \<^verbatim>\<open>await client.then(...)\<close> waits
  for the attempt to settle (\<open>fates\<close> says how each pending attempt will); a rejected
  attempt is passed over by the second argument of \<^verbatim>\<open>then\<close>, a fulfilled one has its
  \<^verbatim>\<open>close\<close> called, and the outcome of that \<^verbatim>\<open>close\<close> is the outcome of the awaited
  promise. \<open>disconnect_entry\<close> is the body of the loop for the entry \<open>(port, client)\<close>.
\<close>

definition disconnect_entry :: "(nat \<Rightarrow> fate) \<Rightarrow> ident \<Rightarrow> nat \<Rightarrow> world \<Rightarrow> unit outcome \<times> world" where
  "disconnect_entry fates port client w =
     (let w1 = settle (fates client) client (evict port w)
      in case attempts w1 client of
           Connecting t options \<Rightarrow> (NeverSettles, w1)
         | Refused e \<Rightarrow> (Fulfilled (), w1)
         | Established c \<Rightarrow>
             (case close c of
                (closed, c') \<Rightarrow>
                  (closed,
                   w1\<lparr>attempts := (attempts w1)(client := Established c'),
                      journal := journal w1 @ [CloseCalled client]\<rparr>)))"

function disconnectAgents :: "(nat \<Rightarrow> fate) \<Rightarrow> world \<Rightarrow> unit outcome \<times> world" where
  "disconnectAgents fates w =
     (case clients w of
        [] \<Rightarrow> (Fulfilled (), w)
      | (port, client) # rest \<Rightarrow>
          (case disconnect_entry fates port client w of
             (Fulfilled u, w') \<Rightarrow> disconnectAgents fates w'
           | (Rejected e, w') \<Rightarrow> (Rejected e, w')
           | (NeverSettles, w') \<Rightarrow> (NeverSettles, w')))"
  by pat_completeness auto

lemma clients_settle: "clients (settle f h w) = clients w"
  by (simp add: settle_def split: attempt.split fate.split)

lemma clients_disconnect_entry:
  "clients (snd (disconnect_entry fates port client w)) = AList.delete port (clients w)"
  by (simp add: disconnect_entry_def Let_def clients_settle evict_def
      split: attempt.split prod.split)

termination disconnectAgents
proof (relation "measure (\<lambda>(fates, w). length (clients w))")
  show "wf (measure (\<lambda>(fates, w). length (clients w)))"
    by simp
next
  fix fates :: "nat \<Rightarrow> fate" and w :: world and entry rest port client closed w'
  assume w: "clients w = entry # rest" and entry: "(port, client) = entry"
    and d: "(closed, w') = disconnect_entry fates port client w"
  have "clients w' = AList.delete port (clients w)"
    using clients_disconnect_entry [of fates port client w] d [symmetric] by simp
  also have "\<dots> = AList.delete port rest"
    using w entry by auto
  finally have "length (clients w') \<le> length rest"
    by (simp add: length_delete_le)
  then show "((fates, w'), (fates, w)) \<in> measure (\<lambda>(fates, w). length (clients w))"
    using w by simp
qed

subsection \<open>Agent server: \<^verbatim>\<open>startAgent\<close> and the \<^verbatim>\<open>close\<close> it installs\<close>

text \<open>
  The server owns the RPC layer (\<^verbatim>\<open>new Server(new WebSocket.Server({ server }))\<close>) and
  the raw listener it created itself: \<^verbatim>\<open>https.createServer\<close> listening on a port, or
  \<^verbatim>\<open>http.createServer\<close> listening on a socket path.
\<close>

datatype raw_listener = HttpsServer number | HttpServer js_string

datatype server_event = RpcLayerClosed | ListenerClosed | ListenerRefused

text \<open>
  \<open>listening\<close> is the state of the raw listener. \<open>base_close\<close> is the behaviour of the
  RPC library's own \<^verbatim>\<open>close\<close> (bound as \<^verbatim>\<open>superClose\<close>), which is not among the sources
  and is left open: its outcome at the first call, the second call, and so on;
  \<open>base_closes\<close> counts those calls. \<open>history\<close> lists what has been closed, in order.
\<close>

record server =
  listener :: raw_listener
  listening :: bool
  base_close :: "nat \<Rightarrow> unit outcome"
  base_closes :: nat
  history :: "server_event list"

definition superClose :: "server \<Rightarrow> unit outcome \<times> server" where
  "superClose s =
     (base_close s (base_closes s),
      s\<lparr>base_closes := Suc (base_closes s),
        history := history s @ (if base_close s (base_closes s) = Fulfilled ()
                                then [RpcLayerClosed] else [])\<rparr>)"

text \<open>
  \<^verbatim>\<open>new Promise((resolve, reject) => server.close((err) => err ? reject(err) : resolve()))\<close>.
  Node's \<^verbatim>\<open>server.close(callback)\<close> stops the listener and calls back without an
  error; when the server is not running, it calls back with \<^verbatim>\<open>ERR_SERVER_NOT_RUNNING\<close>.
\<close>

definition listener_close :: "server \<Rightarrow> unit outcome \<times> server" where
  "listener_close s =
     (if listening s then
        (Fulfilled (), s\<lparr>listening := False, history := history s @ [ListenerClosed]\<rparr>)
      else (Rejected ServerNotRunning, s\<lparr>history := history s @ [ListenerRefused]\<rparr>))"

text \<open>The \<^verbatim>\<open>close\<close> assigned in the port branch (lines 79 to 91).\<close>

definition close_https :: "server \<Rightarrow> unit outcome \<times> server" where
  "close_https s =
     (case superClose s of
        (Fulfilled u, s1) \<Rightarrow> listener_close s1
      | (Rejected e, s1) \<Rightarrow> (Rejected e, s1)
      | (NeverSettles, s1) \<Rightarrow> (NeverSettles, s1))"

text \<open>The \<^verbatim>\<open>close\<close> assigned in the socket branch (lines 104 to 116).\<close>

definition close_http :: "server \<Rightarrow> unit outcome \<times> server" where
  "close_http s =
     (case superClose s of
        (Fulfilled u, s1) \<Rightarrow> listener_close s1
      | (Rejected e, s1) \<Rightarrow> (Rejected e, s1)
      | (NeverSettles, s1) \<Rightarrow> (NeverSettles, s1))"

definition server_close :: "server \<Rightarrow> unit outcome \<times> server" where
  "server_close s =
     (case listener s of
        HttpsServer port \<Rightarrow> close_https s
      | HttpServer path \<Rightarrow> close_http s)"

text \<open>
  \<^verbatim>\<open>startAgent(override)\<close>: the options are resolved, the listener of the matching
  branch is created and \<^verbatim>\<open>listen\<close> is called on it. \<^verbatim>\<open>startAgent\<close> neither waits for
  \<^verbatim>\<open>listen\<close> nor handles its failure: \<open>binds\<close> says whether the listener got its
  address, and so is running. Loading the private key and the certificate, removing a
  stale socket file and the three handlers are left out: they do not touch \<^verbatim>\<open>close\<close>.
  \<open>behaviour\<close> is the \<open>base_close\<close> of the server created.
\<close>

definition startAgent ::
  "ConnectionOptions option \<Rightarrow> (nat \<Rightarrow> unit outcome) \<Rightarrow> bool \<Rightarrow> store
     \<Rightarrow> (error + server) \<times> store" where
  "startAgent override behaviour binds st =
     (case getAgentOptions override st of
        (Inl e, st') \<Rightarrow> (Inl e, st')
      | (Inr options, st') \<Rightarrow>
          (case options of
             Port port \<Rightarrow>
               (Inr \<lparr>listener = HttpsServer port, listening = binds, base_close = behaviour,
                     base_closes = 0, history = []\<rparr>, st')
           | Socket path \<Rightarrow>
               (Inr \<lparr>listener = HttpServer path, listening = binds, base_close = behaviour,
                     base_closes = 0, history = []\<rparr>, st')))"

text \<open>Two servers used as concrete inputs: what \<^verbatim>\<open>startAgent\<close> returns for a port and for a
  socket path when the listener is running, with an RPC layer whose own close succeeds at
  every call.\<close>

definition always_closes :: "nat \<Rightarrow> unit outcome" where
  "always_closes n = Fulfilled ()"

definition port_server :: server where
  "port_server =
     \<lparr>listener = HttpsServer (Num 9), listening = True, base_close = always_closes,
      base_closes = 0, history = []\<rparr>"

definition socket_server :: server where
  "socket_server =
     \<lparr>listener = HttpServer (js ''/tmp/test.sock''), listening = True,
      base_close = always_closes, base_closes = 0, history = []\<rparr>"

text \<open>Something happens to the connection of an attempt, from outside the pool.\<close>

definition affect :: "nat \<Rightarrow> (connection \<Rightarrow> connection) \<Rightarrow> world \<Rightarrow> world" where
  "affect h f w =
     (case attempts w h of
        Established c \<Rightarrow> w\<lparr>attempts := (attempts w)(h := Established (f c))\<rparr>
      | Connecting t options \<Rightarrow> w
      | Refused e \<Rightarrow> w)"

text \<open>
  Concrete inputs for the pool: the state of a fresh process; a first lookup of port 9;
  the state after that attempt has connected and the remote end has closed the
  connection.
\<close>

definition empty_world :: world where
  "empty_world =
     \<lparr>clients = [], attempts = (\<lambda>h. Refused (TransportFailure 0)), started = 0,
      settings_store = store_of None, journal = []\<rparr>"

definition first_lookup :: "lazy_call \<times> world" where
  "first_lookup = connectAgentLazy_run 2 (Called (Millis 500) (Some (Port (Num 9)))) empty_world"

definition closed_between :: world where
  "closed_between = affect 0 remote_disconnect (settle Connects 0 (snd first_lookup))"

text \<open>
  Concrete pools: one with an open connection, a rejected attempt and a pending attempt;
  one with two open connections, the first of which fails to close.
\<close>

definition all_connect :: "nat \<Rightarrow> fate" where
  "all_connect h = Connects"

definition busy_world :: world where
  "busy_world =
     \<lparr>clients = [(PortKey (Num 9), 0), (PortKey (Num 10), 1), (SocketKey (js ''/tmp/a.sock''), 2)],
      attempts =
        (\<lambda>h. if h = 0 then Established (new_connection (Millis 500) (Port (Num 9)))
             else if h = 1 then Refused (TransportFailure 7)
             else Connecting (Millis 500) (Socket (js ''/tmp/a.sock''))),
      started = 3, settings_store = store_of None, journal = []\<rparr>"

definition failing_world :: world where
  "failing_world =
     \<lparr>clients = [(PortKey (Num 9), 0), (PortKey (Num 10), 1)],
      attempts =
        (\<lambda>h. if h = 0
             then Established
                    ((new_connection (Millis 500) (Port (Num 9)))\<lparr>close_error := Some (TransportFailure 1)\<rparr>)
             else Established (new_connection (Millis 500) (Port (Num 10)))),
      started = 2, settings_store = store_of None, journal = []\<rparr>"

text \<open>
  For the calls made at once for one endpoint \<open>options\<close>:
  \<^item> \<open>resolves_to\<close>: with the settings as they are, \<^verbatim>\<open>getAgentOptions(override)\<close> yields
    \<open>options\<close>, so a call with that override is a call for the endpoint;
  \<^item> \<open>stage\<close>: how far a call has come, counted in suspensions along the longest path:
    at stage 3 it has the options and is about to test \<^verbatim>\<open>clients.has(id)\<close>, at stage 4 it
    has made that test;
  \<^item> \<open>received\<close>: the call has the attempt \<open>h\<close> for the endpoint in hand: it has returned
    it, or it is suspended on it, or it has failed with the error the attempt was
    rejected with;
  \<^item> \<open>attempt_for\<close>: the attempt is one for the endpoint, and no closed connection;
  \<^item> \<open>continues_to\<close>, \<open>heading_for\<close>: the call has not tested the pool yet and, when it
    does, it will do so for the endpoint.
\<close>

definition resolves_to :: "store \<Rightarrow> ConnectionOptions option \<Rightarrow> ConnectionOptions \<Rightarrow> bool" where
  "resolves_to st override options = (fst (getAgentOptions override st) = Inr options)"

fun stage :: "concurrent_call \<Rightarrow> nat" where
  "stage (Running (Called t None)) = 0"
| "stage (Loading t r) = 1"
| "stage (Running (Called t (Some options))) = 2"
| "stage (Saving t r) = 2"
| "stage (Running (Resolved t options)) = 3"
| "stage (Running c) = 4"

definition received :: "ConnectionOptions \<Rightarrow> nat \<Rightarrow> world \<Rightarrow> concurrent_call \<Rightarrow> bool" where
  "received options h w c =
     (case c of
        Running (Returned h') \<Rightarrow> h' = h
      | Running (Awaiting t options' k h') \<Rightarrow> options' = options \<and> k = ident_of options \<and> h' = h
      | Running (Thrown e) \<Rightarrow> attempts w h = Refused e
      | Running (Called t override) \<Rightarrow> False
      | Running (Resolved t options') \<Rightarrow> False
      | Loading t r \<Rightarrow> False
      | Saving t r \<Rightarrow> False)"

definition attempt_for :: "ConnectionOptions \<Rightarrow> attempt \<Rightarrow> bool" where
  "attempt_for options a =
     (case a of
        Connecting t options' \<Rightarrow> options' = options
      | Established c \<Rightarrow> endpoint c = options \<and> \<not> isClosed c
      | Refused e \<Rightarrow> True)"

definition continues_to :: "store \<Rightarrow> settings \<Rightarrow> ConnectionOptions \<Rightarrow> bool" where
  "continues_to st s options =
     (case secretAgent s of
        Some sa \<Rightarrow>
          (case configured_port sa of
             Some p \<Rightarrow> options = Port p
           | None \<Rightarrow> save_error st = None \<and> options = Port defaultPort)
      | None \<Rightarrow> options = Port defaultPort)"

definition heading_for :: "ConnectionOptions \<Rightarrow> store \<Rightarrow> concurrent_call \<Rightarrow> bool" where
  "heading_for options st c =
     (case c of
        Running (Called t override) \<Rightarrow> resolves_to st override options
      | Running (Resolved t options') \<Rightarrow> options' = options
      | Running (Awaiting t options' k h) \<Rightarrow> False
      | Running (Returned h) \<Rightarrow> False
      | Running (Thrown e) \<Rightarrow> False
      | Loading t r \<Rightarrow> (case r of Inl e \<Rightarrow> False | Inr s \<Rightarrow> continues_to st s options)
      | Saving t r \<Rightarrow> r = Inr () \<and> options = Port defaultPort)"

text \<open>
  What the store of settings may have become while the calls ran: nothing has changed,
  or the default port has been written, which happens only where the endpoint is the
  default port.
\<close>

definition advanced :: "ConnectionOptions \<Rightarrow> store \<Rightarrow> store \<Rightarrow> bool" where
  "advanced options st st' =
     (st' = st
      \<or> (options = Port defaultPort
          \<and> load_error st' = load_error st \<and> save_error st' = save_error st
          \<and> (case secretAgent (persisted st') of
                Some sa \<Rightarrow> configured_port sa = Some defaultPort
              | None \<Rightarrow> False)))"

text \<open>
  What holds of the calls \<open>calls\<close>, made in a state where \<open>n0\<close> attempts had been started,
  after the actions \<open>acts\<close>: no call is behind the stage its resumptions take it to;
  while the pool has no entry for the endpoint, no attempt has been started and every
  call is still heading for the test of the pool; once it has one, the entry is the
  attempt \<open>n0\<close>, the only one started, some call has returned it, and every call is
  heading for the test or has received that attempt.
\<close>

definition pool_inv ::
  "ConnectionOptions \<Rightarrow> nat \<Rightarrow> concurrent_call list \<Rightarrow> action list
     \<Rightarrow> concurrent_call list \<times> world \<Rightarrow> bool" where
  "pool_inv options n0 calls acts s =
     (case s of
        (calls', w') \<Rightarrow>
          distinct (map fst (clients w'))
          \<and> length calls' = length calls
          \<and> (\<forall>i < length calls.
                min 4 (stage (calls ! i) + count_list acts (Resume i)) \<le> stage (calls' ! i))
          \<and> (if map_of (clients w') (ident_of options) = None
              then started w' = n0
                   \<and> list_all (heading_for options (settings_store w')) calls'
              else map_of (clients w') (ident_of options) = Some n0
                   \<and> started w' = Suc n0
                   \<and> attempt_for options (attempts w' n0)
                   \<and> list_all (\<lambda>c. heading_for options (settings_store w') c
                                    \<or> received options n0 w' c) calls'
                   \<and> Running (Returned n0) \<in> set calls'))"

text \<open>
  Three calls made at once in a process whose settings have a \<^verbatim>\<open>secretAgent\<close> record
  without a port, two of them without override and one for the default port; and one
  order in which the event loop may run them: the two calls without override have both
  read the settings before either writes.
\<close>

definition unconfigured_world :: world where
  "unconfigured_world = empty_world\<lparr>settings_store := store_of (Some (sa_with None))\<rparr>"

definition three_calls :: "concurrent_call list" where
  "three_calls =
     [Running (Called (Millis 500) None), Running (Called Infinity (Some (Port (Num 42938)))),
      Running (Called (Millis 500) None)]"

definition example_schedule :: "action list" where
  "example_schedule =
     [Resume 0, Resume 2, Resume 0, Resume 1, Resume 1, Resume 2, Resume 0, Resume 2,
      Resume 0, Resume 2, Settle 0 Connects, Resume 0, Resume 2, Resume 2]"

text \<open>
  For the entries of the pool, as \<^verbatim>\<open>disconnectAgents\<close> will find them:
  \<^item> \<open>entry_outcome\<close>: how \<^verbatim>\<open>await client.then((c) => c.close(), () => {})\<close> ends for the
    attempt: it never settles when the attempt never does, it is the outcome of \<^verbatim>\<open>close\<close>
    when the attempt is or will be fulfilled, and it is fulfilled when the attempt is or
    will be rejected;
  \<^item> \<open>settles_cleanly\<close>: that outcome is a success, so the loop goes on;
  \<^item> \<open>gets_connected\<close>: the attempt is or will be fulfilled, so there is a connection to
    close;
  \<^item> \<open>closed_or_refused\<close>: the attempt was rejected, or its connection is closed;
  \<^item> \<open>expected_journal\<close>: entry by entry, the eviction and then, where there is a
    connection, the call of its \<^verbatim>\<open>close\<close>;
  \<^item> \<open>passed\<close>: the entries from the first up to, and without, the first one that does
    not settle cleanly; \<open>stuck\<close>: that one and the entries behind it.
\<close>

definition entry_outcome :: "(nat \<Rightarrow> fate) \<Rightarrow> world \<Rightarrow> nat \<Rightarrow> unit outcome" where
  "entry_outcome fates w h =
     (case attempts w h of
        Connecting t options \<Rightarrow>
          if h < started w \<and> fates h \<noteq> Hangs then Fulfilled () else NeverSettles
      | Established c \<Rightarrow> fst (close c)
      | Refused e \<Rightarrow> Fulfilled ())"

definition settles_cleanly :: "(nat \<Rightarrow> fate) \<Rightarrow> world \<Rightarrow> nat \<Rightarrow> bool" where
  "settles_cleanly fates w h = (entry_outcome fates w h = Fulfilled ())"

definition gets_connected :: "(nat \<Rightarrow> fate) \<Rightarrow> world \<Rightarrow> nat \<Rightarrow> bool" where
  "gets_connected fates w h =
     (case attempts w h of
        Connecting t options \<Rightarrow> h < started w \<and> fates h = Connects
      | Established c \<Rightarrow> True
      | Refused e \<Rightarrow> False)"

definition closed_or_refused :: "world \<Rightarrow> nat \<Rightarrow> bool" where
  "closed_or_refused w h =
     (case attempts w h of
        Connecting t options \<Rightarrow> False
      | Established c \<Rightarrow> isClosed c \<and> \<not> transport_open c
      | Refused e \<Rightarrow> True)"

definition expected_journal :: "(nat \<Rightarrow> fate) \<Rightarrow> world \<Rightarrow> (ident \<times> nat) list \<Rightarrow> pool_event list" where
  "expected_journal fates w entries =
     concat (map (\<lambda>(k, h). Evicted k # (if gets_connected fates w h then [CloseCalled h] else []))
                 entries)"

definition passed :: "(nat \<Rightarrow> fate) \<Rightarrow> world \<Rightarrow> (ident \<times> nat) list" where
  "passed fates w = takeWhile (\<lambda>(k, h). settles_cleanly fates w h) (clients w)"

definition stuck :: "(nat \<Rightarrow> fate) \<Rightarrow> world \<Rightarrow> (ident \<times> nat) list" where
  "stuck fates w = dropWhile (\<lambda>(k, h). settles_cleanly fates w h) (clients w)"

text \<open>
  A third pool: a rejected attempt, then a connection whose close reports an error, then
  an open connection.
\<close>

definition mixed_world :: world where
  "mixed_world =
     \<lparr>clients = [(PortKey (Num 8), 0), (PortKey (Num 9), 1), (PortKey (Num 10), 2)],
      attempts =
        (\<lambda>h. if h = 0 then Refused (TransportFailure 7)
             else if h = 1 then Established stubborn_connection
             else Established (new_connection (Millis 500) (Port (Num 10)))),
      started = 3, settings_store = store_of None, journal = []\<rparr>"

section \<open>Properties of the transport resolver\<close>

lemma getAgentOptions_unconfigured:
  assumes "load_error st = None" and "save_error st = None"
    and "secretAgent (persisted st) = Some sa" and "configured_port sa = None"
  shows "getAgentOptions None st =
           (Inr (Port defaultPort),
            st\<lparr>persisted := (persisted st)\<lparr>secretAgent := Some (sa\<lparr>sa_port := Some defaultPort\<rparr>)\<rparr>,
               writes := writes st @ [(persisted st)\<lparr>secretAgent := Some (sa\<lparr>sa_port := Some defaultPort\<rparr>)\<rparr>]\<rparr>)"
  using assms by (simp add: loadSettingsLazy_def saveSettings_def)

lemma getAgentOptions_configured:
  assumes "load_error st = None"
    and "secretAgent (persisted st) = Some sa" and "configured_port sa = Some p"
  shows "getAgentOptions None st = (Inr (Port p), st)"
  using assms by (simp add: loadSettingsLazy_def)

lemma getAgentOptions_no_record:
  assumes "load_error st = None" and "secretAgent (persisted st) = None"
  shows "getAgentOptions None st = (Inr (Port defaultPort), st)"
  using assms by (simp add: loadSettingsLazy_def)

text \<open>
  C4 (as amended). With no override and settings that load:
  \<^item> a \<^verbatim>\<open>secretAgent\<close> record with a truthy port \<open>p\<close> gives \<open>Port p\<close> and the store
    is left as it was;
  \<^item> a \<^verbatim>\<open>secretAgent\<close> record with no port gives port 42938, after one
    \<^verbatim>\<open>saveSettings\<close> of the settings in which only the port of the record has changed
    (to 42938);
  \<^item> no \<^verbatim>\<open>secretAgent\<close> record gives port 42938 and the store is left as it was.
\<close>

theorem getAgentOptions_from_settings:
  assumes "load_error st = None"
  shows "(secretAgent (persisted st) = Some sa \<and> sa_port sa = Some p \<and> truthy p
            \<longrightarrow> getAgentOptions None st = (Inr (Port p), st))
       \<and> (secretAgent (persisted st) = Some sa \<and> sa_port sa = None \<and> save_error st = None
            \<longrightarrow> getAgentOptions None st =
                  (Inr (Port (Num 42938)),
                   st\<lparr>persisted := (persisted st)\<lparr>secretAgent := Some (sa\<lparr>sa_port := Some (Num 42938)\<rparr>)\<rparr>,
                      writes := writes st
                        @ [(persisted st)\<lparr>secretAgent := Some (sa\<lparr>sa_port := Some (Num 42938)\<rparr>)\<rparr>]\<rparr>))
       \<and> (secretAgent (persisted st) = None
            \<longrightarrow> getAgentOptions None st = (Inr (Port (Num 42938)), st))"
proof (intro conjI impI)
  assume "secretAgent (persisted st) = Some sa \<and> sa_port sa = Some p \<and> truthy p"
  then show "getAgentOptions None st = (Inr (Port p), st)"
    using assms getAgentOptions_configured [of st sa p] by (simp add: configured_port_def)
next
  assume "secretAgent (persisted st) = Some sa \<and> sa_port sa = None \<and> save_error st = None"
  then show "getAgentOptions None st =
      (Inr (Port (Num 42938)),
       st\<lparr>persisted := (persisted st)\<lparr>secretAgent := Some (sa\<lparr>sa_port := Some (Num 42938)\<rparr>)\<rparr>,
          writes := writes st
            @ [(persisted st)\<lparr>secretAgent := Some (sa\<lparr>sa_port := Some (Num 42938)\<rparr>)\<rparr>]\<rparr>)"
    using assms getAgentOptions_unconfigured [of st sa]
    by (simp add: configured_port_def defaultPort_def)
next
  assume "secretAgent (persisted st) = None"
  then show "getAgentOptions None st = (Inr (Port (Num 42938)), st)"
    using assms getAgentOptions_no_record [of st] by (simp add: defaultPort_def)
qed

theorem getAgentOptions_from_settings_witness:
  "getAgentOptions None (store_of (Some (sa_with (Some (Num 9)))))
     = (Inr (Port (Num 9)), store_of (Some (sa_with (Some (Num 9)))))
   \<and> fst (getAgentOptions None (store_of (Some (sa_with None)))) = Inr (Port (Num 42938))
   \<and> writes (snd (getAgentOptions None (store_of (Some (sa_with None)))))
       = [\<lparr>secretAgent = Some \<lparr>sa_port = Some (Num 42938), sa_rest = [(''cert'', ''pem'')]\<rparr>,
           settings_rest = [(''team'', ''core'')]\<rparr>]
   \<and> getAgentOptions None (store_of None) = (Inr (Port (Num 42938)), store_of None)"
proof -
  have loads: "load_error (store_of sa) = None" for sa
    by (simp add: store_of_def)
  show ?thesis
    using getAgentOptions_from_settings [OF loads, of "Some (sa_with (Some (Num 9)))" "sa_with (Some (Num 9))" "Num 9"]
      getAgentOptions_from_settings [OF loads, of "Some (sa_with None)" "sa_with None" "Num 9"]
      getAgentOptions_from_settings [OF loads, of None "sa_with None" "Num 9"]
    by (simp add: store_of_def sa_with_def truthy_def)
qed

text \<open>
  C4 as stated fails where the settings name the port \<open>0\<close>: the port returned is 42938,
  not \<open>0\<close>, and the settings are written.
\<close>

theorem getAgentOptions_port_zero_counterexample:
  "sa_port (sa_with (Some (Num 0))) = Some (Num 0)
   \<and> getAgentOptions None (store_of (Some (sa_with (Some (Num 0)))))
       \<noteq> (Inr (Port (Num 0)), store_of (Some (sa_with (Some (Num 0)))))
   \<and> fst (getAgentOptions None (store_of (Some (sa_with (Some (Num 0)))))) = Inr (Port (Num 42938))
   \<and> length (writes (snd (getAgentOptions None (store_of (Some (sa_with (Some (Num 0)))))))) = 1"
  by (simp add: store_of_def sa_with_def loadSettingsLazy_def saveSettings_def
      configured_port_def truthy_def defaultPort_def)

text \<open>
  C10. With no override, settings that load and can be saved, and a \<^verbatim>\<open>secretAgent\<close>
  record whose port is present but falsy (\<open>0\<close> or \<open>NaN\<close>): the configured port is not
  returned; the default port 42938 is written over it with \<^verbatim>\<open>saveSettings\<close>, and 42938
  is returned.
\<close>

theorem getAgentOptions_falsy_port:
  assumes "load_error st = None" and "save_error st = None"
    and "secretAgent (persisted st) = Some sa" and "sa_port sa = Some p" and "\<not> truthy p"
  shows "getAgentOptions None st =
           (Inr (Port (Num 42938)),
            st\<lparr>persisted := (persisted st)\<lparr>secretAgent := Some (sa\<lparr>sa_port := Some (Num 42938)\<rparr>)\<rparr>,
               writes := writes st
                 @ [(persisted st)\<lparr>secretAgent := Some (sa\<lparr>sa_port := Some (Num 42938)\<rparr>)\<rparr>]\<rparr>)
         \<and> fst (getAgentOptions None st) \<noteq> Inr (Port p)"
proof -
  have "configured_port sa = None"
    using assms(4,5) by (simp add: configured_port_def)
  then have run: "getAgentOptions None st =
           (Inr (Port (Num 42938)),
            st\<lparr>persisted := (persisted st)\<lparr>secretAgent := Some (sa\<lparr>sa_port := Some (Num 42938)\<rparr>)\<rparr>,
               writes := writes st
                 @ [(persisted st)\<lparr>secretAgent := Some (sa\<lparr>sa_port := Some (Num 42938)\<rparr>)\<rparr>]\<rparr>)"
    using assms(1-3) getAgentOptions_unconfigured [of st sa] by (simp add: defaultPort_def)
  have "p \<noteq> Num 42938"
    using assms(5) by (auto simp: truthy_def)
  with run show ?thesis by simp
qed

theorem getAgentOptions_falsy_port_witness:
  "\<not> truthy (Num 0)
   \<and> fst (getAgentOptions None (store_of (Some (sa_with (Some (Num 0)))))) = Inr (Port (Num 42938))
   \<and> persisted (snd (getAgentOptions None (store_of (Some (sa_with (Some (Num 0)))))))
       = \<lparr>secretAgent = Some \<lparr>sa_port = Some (Num 42938), sa_rest = [(''cert'', ''pem'')]\<rparr>,
          settings_rest = [(''team'', ''core'')]\<rparr>"
proof -
  have h1: "load_error (store_of (Some (sa_with (Some (Num 0))))) = None"
    and h2: "save_error (store_of (Some (sa_with (Some (Num 0))))) = None"
    and h3: "secretAgent (persisted (store_of (Some (sa_with (Some (Num 0))))))
               = Some (sa_with (Some (Num 0)))"
    and h4: "sa_port (sa_with (Some (Num 0))) = Some (Num 0)"
    and h5: "\<not> truthy (Num 0)"
    by (simp_all add: store_of_def sa_with_def truthy_def)
  show ?thesis
    using getAgentOptions_falsy_port [OF h1 h2 h3 h4 h5] h5
    by (simp add: store_of_def sa_with_def)
qed

section \<open>Properties of the client connection\<close>

lemma takeWhile_nonempty:
  "takeWhile P xs \<noteq> [] \<longleftrightarrow> (case xs of [] \<Rightarrow> False | x # r \<Rightarrow> P x)"
  by (cases xs) auto

lemma unsigned_prefix_None: "unsigned_prefix s = None \<longleftrightarrow> \<not> starts_unsigned s"
  by (auto simp: unsigned_prefix_def starts_unsigned_def takeWhile_nonempty
      split: list.splits if_splits)

lemma str_decimal_prefix_None:
  "str_decimal_prefix s = None \<longleftrightarrow>
     \<not> (case s of [] \<Rightarrow> False
         | c # r \<Rightarrow> if c = 43 \<or> c = 45 then starts_unsigned r else starts_unsigned (c # r))"
  by (auto simp: str_decimal_prefix_def unsigned_prefix_None split: list.splits)

lemma isNaN_parseFloat: "isNaN (parseFloat s) \<longleftrightarrow> \<not> starts_with_number s"
proof -
  have "isNaN (parseFloat s) \<longleftrightarrow> str_decimal_prefix (dropWhile is_white_space s) = None"
    by (simp add: parseFloat_def isNaN_def split: option.split)
  also have "\<dots> \<longleftrightarrow> \<not> starts_with_number s"
    unfolding str_decimal_prefix_None starts_with_number_def ..
  finally show ?thesis .
qed

lemma starts_unsigned_not_ws: "starts_unsigned (c # r) \<Longrightarrow> \<not> is_white_space c"
  by (auto simp: starts_unsigned_def is_white_space_def is_digit_def js_def)

lemma literal_not_ws:
  assumes "str_decimal_prefix s = Some lit"
  shows "dropWhile is_white_space s = s"
proof (cases s)
  case Nil
  then show ?thesis by simp
next
  case (Cons c r)
  have "\<not> is_white_space c"
  proof (cases "c = 43 \<or> c = 45")
    case True
    then show ?thesis by (auto simp: is_white_space_def)
  next
    case False
    with assms Cons have "unsigned_prefix (c # r) \<noteq> None"
      by (simp add: str_decimal_prefix_def)
    then show ?thesis
      using starts_unsigned_not_ws [of c r] by (simp add: unsigned_prefix_None)
  qed
  with Cons show ?thesis by simp
qed

lemma whole_literal_parses:
  assumes "str_decimal_prefix s = Some s"
  shows "parseFloat s = Literal s"
  using assms literal_not_ws [OF assms] by (simp add: parseFloat_def)

lemmas parse_defs =
  parseFloat_def str_decimal_prefix_def unsigned_prefix_def exponent_part_def
  is_white_space_def is_digit_def isNaN_def to_string_def element_at_def js_def colon_def

lemma keepAlive_logs [simp]: "sent (keepAlive c) = sent c" "key_loads (keepAlive c) = key_loads c"
  by (simp_all add: keepAlive_def Let_def split: timeout.split)

lemma decryptValue_invalid:
  assumes "isNaN (parseFloat (to_string (element_at (split_on colon text) 1)))"
  shows "decryptValue e text c
           = (Rejected (InvalidRevision (element_at (split_on colon text) 1)), keepAlive c)"
  using assms by (simp add: decryptValue_def Let_def)

lemma client_call_key_loads [simp]: "key_loads (snd (client_call r q c)) = key_loads c"
  by (simp add: client_call_def)

lemma decryptValue_loads:
  assumes "\<not> isNaN (parseFloat (to_string (element_at (split_on colon text) 1)))"
  shows "key_loads (snd (decryptValue e text c))
           = key_loads c @ [parseFloat (to_string (element_at (split_on colon text) 1))]"
  using assms
  by (simp add: decryptValue_def Let_def client_call_def split: outcome.split prod.split)

text \<open>
  C2 (as amended). For every ciphertext, key loader and connection, \<^verbatim>\<open>decryptValue\<close> is
  rejected with the validation error, with no request sent and the key loader not
  invoked, exactly when its revision segment (the second element of \<^verbatim>\<open>text.split(':')\<close>)
  is absent or does not start, after leading white space, with an optional sign followed
  by a digit, by a dot and a digit, or by \<^verbatim>\<open>Infinity\<close>. A segment that is a decimal literal
  as a whole never fails the validation.
\<close>

theorem decryptValue_validation:
  "((fst (decryptValue e text c) = Rejected (InvalidRevision (element_at (split_on colon text) 1))
      \<and> sent (snd (decryptValue e text c)) = sent c
      \<and> key_loads (snd (decryptValue e text c)) = key_loads c)
     \<longleftrightarrow> \<not> starts_with_number (to_string (element_at (split_on colon text) 1)))
   \<and> (numeric_segment (element_at (split_on colon text) 1)
        \<longrightarrow> starts_with_number (to_string (element_at (split_on colon text) 1)))"
proof (intro conjI impI)
  show "(fst (decryptValue e text c) = Rejected (InvalidRevision (element_at (split_on colon text) 1))
      \<and> sent (snd (decryptValue e text c)) = sent c
      \<and> key_loads (snd (decryptValue e text c)) = key_loads c)
     \<longleftrightarrow> \<not> starts_with_number (to_string (element_at (split_on colon text) 1))"
  proof (cases "isNaN (parseFloat (to_string (element_at (split_on colon text) 1)))")
    case True
    then show ?thesis
      using decryptValue_invalid [OF True, of e c] by (simp add: isNaN_parseFloat)
  next
    case False
    then show ?thesis
      using decryptValue_loads [OF False, of e c] by (simp add: isNaN_parseFloat)
  qed
next
  assume "numeric_segment (element_at (split_on colon text) 1)"
  then obtain s where s: "element_at (split_on colon text) 1 = Some s" "str_decimal_prefix s = Some s"
    by (auto simp: numeric_segment_def split: option.splits)
  then have "\<not> isNaN (parseFloat (to_string (element_at (split_on colon text) 1)))"
    using whole_literal_parses [of s] by (simp add: to_string_def isNaN_def)
  then show "starts_with_number (to_string (element_at (split_on colon text) 1))"
    by (simp add: isNaN_parseFloat)
qed

text \<open>The ciphertext \<^verbatim>\<open>scheme:abc:payload\<close> fails the validation and nothing is sent.\<close>

lemma seg_abc: "element_at (split_on colon (js ''scheme:abc:payload'')) 1 = Some (js ''abc'')"
  by (simp add: parse_defs)

theorem decryptValue_validation_witness:
  "fst (decryptValue example_env (js ''scheme:abc:payload'') example_connection)
     = Rejected (InvalidRevision (Some (js ''abc'')))
   \<and> sent (snd (decryptValue example_env (js ''scheme:abc:payload'') example_connection)) = []
   \<and> key_loads (snd (decryptValue example_env (js ''scheme:abc:payload'') example_connection)) = []"
proof -
  have ns: "\<not> starts_with_number
              (to_string (element_at (split_on colon (js ''scheme:abc:payload'')) 1))"
    unfolding seg_abc by (simp add: starts_with_number_def starts_unsigned_def parse_defs)
  have "fst (decryptValue example_env (js ''scheme:abc:payload'') example_connection)
          = Rejected (InvalidRevision (element_at (split_on colon (js ''scheme:abc:payload'')) 1))
        \<and> sent (snd (decryptValue example_env (js ''scheme:abc:payload'') example_connection))
          = sent example_connection
        \<and> key_loads (snd (decryptValue example_env (js ''scheme:abc:payload'') example_connection))
          = key_loads example_connection"
    using decryptValue_validation [of example_env "js ''scheme:abc:payload''" example_connection] ns
    by blast
  then show ?thesis
    unfolding seg_abc by (simp add: example_connection_def new_connection_def)
qed

text \<open>
  C2 as stated fails at \<^verbatim>\<open>scheme:12abc:payload\<close>: the revision segment \<^verbatim>\<open>12abc\<close> is not
  numeric, yet the validation passes, the key of revision 12 is loaded and the request
  is sent.
\<close>

theorem decryptValue_lenient_counterexample:
  "element_at (split_on colon (js ''scheme:12abc:payload'')) 1 = Some (js ''12abc'')
   \<and> \<not> numeric_segment (Some (js ''12abc''))
   \<and> fst (decryptValue example_env (js ''scheme:12abc:payload'') example_connection)
       = Fulfilled (JString (js ''scheme:12abc:payload''))
   \<and> key_loads (snd (decryptValue example_env (js ''scheme:12abc:payload'') example_connection))
       = [Literal (js ''12'')]
   \<and> sent (snd (decryptValue example_env (js ''scheme:12abc:payload'') example_connection))
       = [DecryptRequest (js ''scheme:12abc:payload'') \<lparr>revision = 12, key = js ''k12''\<rparr>]"
  by (simp add: decryptValue_def Let_def numeric_segment_def parse_defs example_env_def
      example_connection_def new_connection_def keepAlive_def client_call_def)

lemma keepAlive_fields [simp]:
  "isClosed (keepAlive c) = isClosed c"
  "transport_open (keepAlive c) = transport_open c"
  "close_error (keepAlive c) = close_error c"
  "closeTimeoutMs (keepAlive c) = closeTimeoutMs c"
  by (simp_all add: keepAlive_def Let_def split: timeout.split)

lemma keepAlive_Infinity:
  "closeTimeoutMs c = Infinity \<Longrightarrow> closeTimeout (keepAlive c) = None"
  by (simp add: keepAlive_def Let_def)

lemma never_timed_keepAlive: "never_timed c \<Longrightarrow> never_timed (keepAlive c)"
  by (simp add: never_timed_def keepAlive_Infinity)

lemma never_timed_client_call: "never_timed c \<Longrightarrow> never_timed (snd (client_call r q c))"
  by (simp add: never_timed_def client_call_def)

lemma never_timed_client_close: "never_timed c \<Longrightarrow> never_timed (snd (client_close c))"
  by (simp add: never_timed_def client_close_def on_close_def split: option.split)

lemma never_timed_ping: "never_timed c \<Longrightarrow> never_timed (snd (ping e c))"
  by (simp add: ping_def never_timed_client_call never_timed_keepAlive)

lemma never_timed_decryptValue: "never_timed c \<Longrightarrow> never_timed (snd (decryptValue e text c))"
  by (auto simp: decryptValue_def Let_def never_timed_def keepAlive_Infinity client_call_def
      split: outcome.split prod.split)

lemma never_timed_encryptValue: "never_timed c \<Longrightarrow> never_timed (snd (encryptValue e v k c))"
  by (auto simp: encryptValue_def never_timed_def keepAlive_Infinity client_call_def
      split: outcome.split prod.split)

lemma never_timed_close: "never_timed c \<Longrightarrow> never_timed (snd (close c))"
  by (simp add: never_timed_def close_def client_close_def on_close_def split: option.split)

lemma never_timed_occurs: "never_timed c \<Longrightarrow> never_timed (occurs e c ev)"
  by (cases ev)
    (simp_all add: never_timed_ping never_timed_decryptValue never_timed_encryptValue
      never_timed_close, simp_all add: never_timed_def elapse_def remote_disconnect_def on_close_def)

lemma never_timed_run: "never_timed c \<Longrightarrow> never_timed (run_events e evs c)"
  unfolding run_events_def by (induction evs arbitrary: c) (simp_all add: never_timed_occurs)

lemma is_open_occurs:
  assumes "never_timed c" and "is_open c" and "ev \<noteq> CallClose" and "ev \<noteq> RemoteDisconnects"
  shows "is_open (occurs e c ev)"
  using assms
  by (cases ev)
    (auto simp: is_open_def never_timed_def ping_def decryptValue_def encryptValue_def Let_def
      client_call_def elapse_def split: outcome.split prod.split)

lemma is_open_run:
  assumes "never_timed c" and "is_open c"
    and "CallClose \<notin> set evs" and "RemoteDisconnects \<notin> set evs"
  shows "is_open (run_events e evs c)"
  using assms unfolding run_events_def
  by (induction evs arbitrary: c) (auto simp: never_timed_occurs is_open_occurs)

text \<open>
  C9. A connection created with \<^verbatim>\<open>closeTimeoutMs = Infinity\<close> never has a timer pending,
  whatever calls are made and however much time passes; as long as \<^verbatim>\<open>close\<close> is not
  called and the remote end does not disconnect, its transport stays open and
  \<^verbatim>\<open>isClosed()\<close> stays false.
\<close>

theorem infinite_timeout_never_closes:
  "closeTimeout (run_events e evs (new_connection Infinity options)) = None
   \<and> (CallClose \<notin> set evs \<and> RemoteDisconnects \<notin> set evs
        \<longrightarrow> transport_open (run_events e evs (new_connection Infinity options))
          \<and> \<not> isClosed (run_events e evs (new_connection Infinity options)))"
proof -
  have t: "never_timed (new_connection Infinity options)"
    by (simp add: never_timed_def new_connection_def)
  have opn: "is_open (new_connection Infinity options)"
    by (simp add: is_open_def new_connection_def)
  show ?thesis
    using never_timed_run [OF t, of e evs] is_open_run [OF t opn, of evs e]
    by (auto simp: never_timed_def is_open_def)
qed

theorem infinite_timeout_never_closes_witness:
  "closeTimeout (run_events example_env example_events (new_connection Infinity (Port (Num 9)))) = None
   \<and> transport_open (run_events example_env example_events (new_connection Infinity (Port (Num 9))))
   \<and> \<not> isClosed (run_events example_env example_events (new_connection Infinity (Port (Num 9))))
   \<and> length (sent (run_events example_env example_events (new_connection Infinity (Port (Num 9))))) = 2"
proof -
  have h: "CallClose \<notin> set example_events \<and> RemoteDisconnects \<notin> set example_events"
    by (simp add: example_events_def)
  have "length (sent (run_events example_env example_events (new_connection Infinity (Port (Num 9))))) = 2"
    by (simp add: run_events_def example_events_def example_env_def new_connection_def
        ping_def decryptValue_def Let_def keepAlive_def client_call_def elapse_def parse_defs)
  then show ?thesis
    using infinite_timeout_never_closes [of example_env example_events "Port (Num 9)"] h
    by blast
qed

text \<open>
  For comparison, with a timeout of 500 ms the timer closes the connection 500 ms after
  the last call, and not before.
\<close>

lemma finite_timeout_closes:
  "\<not> transport_open (run_events example_env [CallPing, TimePasses 500] (new_connection (Millis 500) (Port (Num 9))))
   \<and> isClosed (run_events example_env [CallPing, TimePasses 500] (new_connection (Millis 500) (Port (Num 9))))
   \<and> transport_open (run_events example_env [CallPing, TimePasses 499, CallPing, TimePasses 499] (new_connection (Millis 500) (Port (Num 9))))"
  by (simp add: run_events_def example_env_def new_connection_def ping_def keepAlive_def
      client_call_def elapse_def timer_fires_def client_close_def on_close_def)

lemma shut_close: "shut (snd (close c))"
  by (simp add: shut_def close_def client_close_def on_close_def split: option.split)

lemma shut_occurs: "shut c \<Longrightarrow> shut (occurs e c ev)"
  by (cases ev)
    (auto simp: shut_def ping_def decryptValue_def encryptValue_def Let_def close_def
      client_call_def client_close_def on_close_def elapse_def timer_fires_def
      remote_disconnect_def split: outcome.split prod.split option.split)

lemma shut_run: "shut c \<Longrightarrow> shut (run_events e evs c)"
  unfolding run_events_def by (induction evs arbitrary: c) (simp_all add: shut_occurs)

lemma shut_ping: "shut c \<Longrightarrow> fst (ping e c) = Rejected ConnectionClosed"
  by (simp add: shut_def ping_def client_call_def)

lemma shut_encryptValue: "shut c \<Longrightarrow> fst (encryptValue e v k c) = Rejected ConnectionClosed"
  by (simp add: shut_def encryptValue_def client_call_def)

lemma shut_decryptValue:
  "shut c \<Longrightarrow> fst (decryptValue e text c) =
     (if \<not> starts_with_number (to_string (element_at (split_on colon text) 1))
      then Rejected (InvalidRevision (element_at (split_on colon text) 1))
      else (case loadEncryptedKey e (parseFloat (to_string (element_at (split_on colon text) 1))) of
              Fulfilled symmetricKey \<Rightarrow> Rejected ConnectionClosed
            | Rejected err \<Rightarrow> Rejected err
            | NeverSettles \<Rightarrow> NeverSettles))"
  by (simp add: shut_def decryptValue_def Let_def client_call_def isNaN_parseFloat
      split: outcome.split)

lemma shut_close_again: "shut c \<Longrightarrow> close c = (Fulfilled (), c)"
  by (simp add: shut_def close_def client_close_def)

text \<open>
  C8 (as amended). After \<^verbatim>\<open>close()\<close> has been called, and whatever happens to the
  connection afterwards: \<^verbatim>\<open>isClosed()\<close> is true; \<^verbatim>\<open>ping\<close> and \<^verbatim>\<open>encryptValue\<close> fail with the
  connection-closed error; \<^verbatim>\<open>decryptValue\<close> fails with the validation error when the
  revision does not parse, otherwise ends as the key loader does when the loader fails or
  never answers, otherwise fails with the connection-closed error; and \<^verbatim>\<open>close()\<close> again
  succeeds and changes nothing.
\<close>

theorem connection_after_close:
  "isClosed (run_events e evs (snd (close c)))
   \<and> fst (ping e (run_events e evs (snd (close c)))) = Rejected ConnectionClosed
   \<and> fst (encryptValue e v k (run_events e evs (snd (close c)))) = Rejected ConnectionClosed
   \<and> fst (decryptValue e text (run_events e evs (snd (close c)))) =
       (if \<not> starts_with_number (to_string (element_at (split_on colon text) 1))
        then Rejected (InvalidRevision (element_at (split_on colon text) 1))
        else (case loadEncryptedKey e (parseFloat (to_string (element_at (split_on colon text) 1))) of
                Fulfilled symmetricKey \<Rightarrow> Rejected ConnectionClosed
              | Rejected err \<Rightarrow> Rejected err
              | NeverSettles \<Rightarrow> NeverSettles))
   \<and> close (run_events e evs (snd (close c))) = (Fulfilled (), run_events e evs (snd (close c)))"
proof (intro conjI)
  have s: "shut (run_events e evs (snd (close c)))"
    by (intro shut_run shut_close)
  then show "isClosed (run_events e evs (snd (close c)))"
    by (simp add: shut_def)
  show "fst (ping e (run_events e evs (snd (close c)))) = Rejected ConnectionClosed"
    by (rule shut_ping [OF s])
  show "fst (encryptValue e v k (run_events e evs (snd (close c)))) = Rejected ConnectionClosed"
    by (rule shut_encryptValue [OF s])
  show "fst (decryptValue e text (run_events e evs (snd (close c)))) =
          (if \<not> starts_with_number (to_string (element_at (split_on colon text) 1))
           then Rejected (InvalidRevision (element_at (split_on colon text) 1))
           else (case loadEncryptedKey e (parseFloat (to_string (element_at (split_on colon text) 1))) of
                   Fulfilled symmetricKey \<Rightarrow> Rejected ConnectionClosed
                 | Rejected err \<Rightarrow> Rejected err
                 | NeverSettles \<Rightarrow> NeverSettles))"
    by (rule shut_decryptValue [OF s])
  show "close (run_events e evs (snd (close c))) = (Fulfilled (), run_events e evs (snd (close c)))"
    by (rule shut_close_again [OF s])
qed

lemma seg_12: "element_at (split_on colon (js ''scheme:12:x'')) 1 = Some (js ''12'')"
  by (simp add: parse_defs)

text \<open>
  A connection whose transport reports an error when it is closed: \<^verbatim>\<open>close()\<close> is
  rejected with that error; after a ping and 600 ms, the calls fail as the theorem says
  and \<^verbatim>\<open>close()\<close> again succeeds.
\<close>

theorem connection_after_close_witness:
  "fst (close stubborn_connection) = Rejected (TransportFailure 1)
   \<and> isClosed (run_events example_env [CallPing, TimePasses 600] (snd (close stubborn_connection)))
   \<and> fst (ping example_env (run_events example_env [CallPing, TimePasses 600] (snd (close stubborn_connection))))
       = Rejected ConnectionClosed
   \<and> fst (encryptValue example_env JNull \<lparr>revision = 12, key = js ''k12''\<rparr>
            (run_events example_env [CallPing, TimePasses 600] (snd (close stubborn_connection))))
       = Rejected ConnectionClosed
   \<and> fst (decryptValue example_env (js ''scheme:12:x'')
            (run_events example_env [CallPing, TimePasses 600] (snd (close stubborn_connection))))
       = Rejected ConnectionClosed
   \<and> fst (close (run_events example_env [CallPing, TimePasses 600] (snd (close stubborn_connection))))
       = Fulfilled ()"
proof -
  have f: "fst (close stubborn_connection) = Rejected (TransportFailure 1)"
    by (simp add: stubborn_connection_def example_connection_def new_connection_def close_def
        client_close_def)
  have sw: "starts_with_number (to_string (element_at (split_on colon (js ''scheme:12:x'')) 1))"
    unfolding seg_12 by (simp add: starts_with_number_def starts_unsigned_def parse_defs)
  have ld: "loadEncryptedKey example_env
              (parseFloat (to_string (element_at (split_on colon (js ''scheme:12:x'')) 1)))
            = Fulfilled \<lparr>revision = 12, key = js ''k12''\<rparr>"
    unfolding seg_12 by (simp add: example_env_def parse_defs)
  show ?thesis
    using connection_after_close [of example_env "[CallPing, TimePasses 600]" stubborn_connection
        JNull "\<lparr>revision = 12, key = js ''k12''\<rparr>" "js ''scheme:12:x''"] f sw ld
    by simp
qed

text \<open>
  C8 as stated fails for \<^verbatim>\<open>decryptValue\<close>, which validates the revision and loads the key
  before it issues its call: on a closed connection, a ciphertext with a malformed
  revision fails with the validation error, and one whose key the loader does not find
  fails with the loader's error; neither fails with the connection-closed error.
\<close>

theorem closed_connection_validation_counterexample:
  "isClosed (snd (close example_connection))
   \<and> \<not> transport_open (snd (close example_connection))
   \<and> fst (decryptValue example_env (js ''scheme:abc:payload'') (snd (close example_connection)))
       = Rejected (InvalidRevision (Some (js ''abc'')))
   \<and> fst (decryptValue example_env (js ''scheme:abc:payload'') (snd (close example_connection)))
       \<noteq> Rejected ConnectionClosed
   \<and> fst (decryptValue keyless_env (js ''scheme:99:x'') (snd (close example_connection)))
       = Rejected (KeyNotFound (Literal (js ''99'')))"
  by (simp add: decryptValue_def Let_def close_def client_close_def on_close_def
      example_connection_def new_connection_def example_env_def keyless_env_def parse_defs)

section \<open>Properties of the agent server\<close>

lemma superClose_ok:
  assumes "base_close s (base_closes s) = Fulfilled ()"
  shows "superClose s =
     (Fulfilled (), s\<lparr>base_closes := Suc (base_closes s), history := history s @ [RpcLayerClosed]\<rparr>)"
  using assms by (simp add: superClose_def)

lemma superClose_not_ok:
  assumes "base_close s (base_closes s) \<noteq> Fulfilled ()"
  shows "superClose s = (base_close s (base_closes s), s\<lparr>base_closes := Suc (base_closes s)\<rparr>)"
  using assms by (simp add: superClose_def)

lemma server_close_unfold:
  "server_close s =
     (case superClose s of
        (Fulfilled u, s1) \<Rightarrow> listener_close s1
      | (Rejected e, s1) \<Rightarrow> (Rejected e, s1)
      | (NeverSettles, s1) \<Rightarrow> (NeverSettles, s1))"
  by (simp add: server_close_def close_https_def close_http_def split: raw_listener.split)

lemma server_close_ok:
  assumes "base_close s (base_closes s) = Fulfilled ()"
  shows "server_close s =
     listener_close (s\<lparr>base_closes := Suc (base_closes s), history := history s @ [RpcLayerClosed]\<rparr>)"
  by (simp add: server_close_unfold superClose_ok [OF assms])

lemma server_close_not_ok:
  assumes "base_close s (base_closes s) \<noteq> Fulfilled ()"
  shows "server_close s = (base_close s (base_closes s), s\<lparr>base_closes := Suc (base_closes s)\<rparr>)"
  using assms
  by (cases "base_close s (base_closes s)")
    (simp_all add: server_close_unfold superClose_not_ok [OF assms])

text \<open>
  C6. For a server of either branch, in any state: \<^verbatim>\<open>close()\<close> first closes the RPC layer.
  When that succeeds, it then closes the raw listener, and the outcome of \<^verbatim>\<open>close()\<close> is
  the outcome of closing the listener: success, or the listener's error when the listener
  is not running. When closing the RPC layer fails or never completes, that is the
  outcome of \<^verbatim>\<open>close()\<close> and the listener is not touched.
\<close>

theorem server_close_sequence:
  "(base_close s (base_closes s) = Fulfilled () \<longrightarrow>
      history (snd (server_close s))
        = history s @ [RpcLayerClosed, if listening s then ListenerClosed else ListenerRefused]
      \<and> fst (server_close s) = (if listening s then Fulfilled () else Rejected ServerNotRunning)
      \<and> \<not> listening (snd (server_close s)))
   \<and> (base_close s (base_closes s) \<noteq> Fulfilled () \<longrightarrow>
      history (snd (server_close s)) = history s
      \<and> fst (server_close s) = base_close s (base_closes s)
      \<and> listening (snd (server_close s)) = listening s)"
proof (intro conjI impI)
  assume ok: "base_close s (base_closes s) = Fulfilled ()"
  show "history (snd (server_close s))
        = history s @ [RpcLayerClosed, if listening s then ListenerClosed else ListenerRefused]"
    by (simp add: server_close_ok [OF ok] listener_close_def)
  show "fst (server_close s) = (if listening s then Fulfilled () else Rejected ServerNotRunning)"
    by (simp add: server_close_ok [OF ok] listener_close_def)
  show "\<not> listening (snd (server_close s))"
    by (simp add: server_close_ok [OF ok] listener_close_def)
next
  assume bad: "base_close s (base_closes s) \<noteq> Fulfilled ()"
  show "history (snd (server_close s)) = history s"
    by (simp add: server_close_not_ok [OF bad])
  show "fst (server_close s) = base_close s (base_closes s)"
    by (simp add: server_close_not_ok [OF bad])
  show "listening (snd (server_close s)) = listening s"
    by (simp add: server_close_not_ok [OF bad])
qed

lemma startAgent_listens:
  assumes "startAgent override behaviour binds st = (Inr s, st')"
  shows "listening s = binds \<and> history s = [] \<and> base_closes s = 0 \<and> base_close s = behaviour"
  using assms
  by (auto simp: startAgent_def split: prod.splits sum.splits ConnectionOptions.splits)

text \<open>
  C7 (as amended). After a successful \<^verbatim>\<open>close()\<close>, a second \<^verbatim>\<open>close()\<close> on the same server
  does not complete successfully: when the RPC layer's own close succeeds again, the
  second \<^verbatim>\<open>close()\<close> is rejected with the listener's not-running error; otherwise its
  outcome is that of the RPC layer's close.
\<close>

theorem server_close_twice:
  assumes "fst (server_close s) = Fulfilled ()"
  shows "fst (server_close (snd (server_close s))) \<noteq> Fulfilled ()
       \<and> fst (server_close (snd (server_close s)))
           = (if base_close s (Suc (base_closes s)) = Fulfilled () then Rejected ServerNotRunning
              else base_close s (Suc (base_closes s)))"
proof -
  have ok: "base_close s (base_closes s) = Fulfilled ()"
  proof (rule ccontr)
    assume bad: "base_close s (base_closes s) \<noteq> Fulfilled ()"
    from server_close_not_ok [OF bad] assms bad show False by simp
  qed
  let ?s1 = "snd (server_close s)"
  have s1: "\<not> listening ?s1" "base_close ?s1 = base_close s" "base_closes ?s1 = Suc (base_closes s)"
    by (simp_all add: server_close_ok [OF ok] listener_close_def)
  show ?thesis
  proof (cases "base_close s (Suc (base_closes s)) = Fulfilled ()")
    case True
    then have "base_close ?s1 (base_closes ?s1) = Fulfilled ()"
      using s1 by simp
    from server_close_ok [OF this] s1(1) True show ?thesis
      by (simp add: listener_close_def)
  next
    case False
    then have "base_close ?s1 (base_closes ?s1) \<noteq> Fulfilled ()"
      using s1 by simp
    from server_close_not_ok [OF this] False s1 show ?thesis
      by simp
  qed
qed

lemma startAgent_examples:
  "startAgent (Some (Port (Num 9))) always_closes True st = (Inr port_server, st)"
  "startAgent (Some (Socket (js ''/tmp/test.sock''))) always_closes True st = (Inr socket_server, st)"
  "startAgent (Some (Socket (js ''/tmp/test.sock''))) always_closes False st
     = (Inr (socket_server\<lparr>listening := False\<rparr>), st)"
  by (simp_all add: startAgent_def port_server_def socket_server_def)

theorem server_close_sequence_witness:
  "fst (startAgent (Some (Port (Num 9))) always_closes True (store_of None)) = Inr port_server
   \<and> fst (startAgent (Some (Socket (js ''/tmp/test.sock''))) always_closes True (store_of None))
       = Inr socket_server
   \<and> fst (startAgent (Some (Socket (js ''/tmp/test.sock''))) always_closes False (store_of None))
       = Inr (socket_server\<lparr>listening := False\<rparr>)
   \<and> fst (server_close port_server) = Fulfilled ()
   \<and> history (snd (server_close port_server)) = [RpcLayerClosed, ListenerClosed]
   \<and> fst (server_close socket_server) = Fulfilled ()
   \<and> history (snd (server_close socket_server)) = [RpcLayerClosed, ListenerClosed]
   \<and> fst (server_close (socket_server\<lparr>listening := False\<rparr>)) = Rejected ServerNotRunning
   \<and> fst (server_close (port_server\<lparr>base_close := (\<lambda>n. Rejected (TransportFailure 1))\<rparr>))
       = Rejected (TransportFailure 1)
   \<and> listening (snd (server_close (port_server\<lparr>base_close := (\<lambda>n. Rejected (TransportFailure 1))\<rparr>)))"
  using server_close_sequence [of port_server] server_close_sequence [of socket_server]
    server_close_sequence [of "socket_server\<lparr>listening := False\<rparr>"]
    server_close_sequence [of "port_server\<lparr>base_close := (\<lambda>n. Rejected (TransportFailure 1))\<rparr>"]
  by (simp add: startAgent_examples) (simp add: port_server_def socket_server_def always_closes_def)

theorem server_close_twice_witness:
  "fst (server_close port_server) = Fulfilled ()
   \<and> fst (server_close (snd (server_close port_server))) = Rejected ServerNotRunning"
proof -
  have h: "fst (server_close port_server) = Fulfilled ()"
    by (simp add: port_server_def server_close_def close_https_def superClose_def
        listener_close_def always_closes_def)
  show ?thesis
    using server_close_twice [OF h] h by (simp add: port_server_def always_closes_def)
qed

text \<open>
  C7 as stated fails: on a server started on a socket path, whose RPC layer closes without
  complaint every time, the first \<^verbatim>\<open>close()\<close> succeeds and the second is rejected.
\<close>

theorem server_close_not_idempotent_counterexample:
  "fst (server_close socket_server) = Fulfilled ()
   \<and> fst (server_close (snd (server_close socket_server))) = Rejected ServerNotRunning
   \<and> fst (server_close (snd (server_close socket_server))) \<noteq> Fulfilled ()
   \<and> history (snd (server_close (snd (server_close socket_server))))
       = [RpcLayerClosed, ListenerClosed, RpcLayerClosed, ListenerRefused]"
  by (simp add: socket_server_def server_close_def close_http_def superClose_def
      listener_close_def always_closes_def)

section \<open>Properties of the connection pool\<close>

lemma run_5:
  "connectAgentLazy_run 5 c w =
     (case connectAgentLazy_step c w of (c1, w1) \<Rightarrow>
      case connectAgentLazy_step c1 w1 of (c2, w2) \<Rightarrow>
      case connectAgentLazy_step c2 w2 of (c3, w3) \<Rightarrow>
      case connectAgentLazy_step c3 w3 of (c4, w4) \<Rightarrow>
      connectAgentLazy_step c4 w4)"
  by (simp add: eval_nat_numeral split: prod.split)

lemma run_Returned: "connectAgentLazy_run n (Returned h) w = (Returned h, w)"
  by (induction n) simp_all

lemma run_add:
  "connectAgentLazy_run (m + n) c w =
     (case connectAgentLazy_run m c w of (c', w') \<Rightarrow> connectAgentLazy_run n c' w')"
  by (induction m arbitrary: c w) (simp_all split: prod.split)

text \<open>
  C5. Let the pool hold, for the identity of the resolved options, an attempt (started
  earlier) that has resolved to a connection reporting closed. Then a call of \<^verbatim>\<open>connectAgentLazy\<close>, running on
  its own, has returned after five segments (and stays so): it has evicted the entry,
  started one new attempt for the same options and cached it under the same identity,
  and what it returns is that new attempt, never the closed one.
\<close>

theorem connectAgentLazy_reconnects:
  assumes "getAgentOptions override (settings_store w) = (Inr options, st)"
    and "map_of (clients w) (ident_of options) = Some h"
    and "h < started w"
    and "attempts w h = Established c" and "isClosed c"
    and "5 \<le> n"
  shows "connectAgentLazy_run n (Called t override) w =
           (Returned (started w),
            w\<lparr>clients := AList.update (ident_of options) (started w)
                           (AList.delete (ident_of options) (clients w)),
               attempts := (attempts w)(started w := Connecting t options),
               started := Suc (started w),
               settings_store := st,
               journal := journal w @ [Evicted (ident_of options)]\<rparr>)
         \<and> started w \<noteq> h
         \<and> map_of (clients (snd (connectAgentLazy_run n (Called t override) w))) (ident_of options)
             = Some (started w)"
proof -
  have five: "connectAgentLazy_run 5 (Called t override) w =
           (Returned (started w),
            w\<lparr>clients := AList.update (ident_of options) (started w)
                           (AList.delete (ident_of options) (clients w)),
               attempts := (attempts w)(started w := Connecting t options),
               started := Suc (started w),
               settings_store := st,
               journal := journal w @ [Evicted (ident_of options)]\<rparr>)"
    using assms(1-5)
    by (simp add: run_5 evict_def connectAgent_def delete_conv)
  obtain m where n: "n = 5 + m"
    using assms(6) by (auto simp: le_iff_add)
  have run: "connectAgentLazy_run n (Called t override) w =
           (Returned (started w),
            w\<lparr>clients := AList.update (ident_of options) (started w)
                           (AList.delete (ident_of options) (clients w)),
               attempts := (attempts w)(started w := Connecting t options),
               started := Suc (started w),
               settings_store := st,
               journal := journal w @ [Evicted (ident_of options)]\<rparr>)"
    unfolding n run_add five by (simp add: run_Returned)
  have "started w \<noteq> h"
    using assms(3) by simp
  with run show ?thesis
    by (simp add: update_conv')
qed

text \<open>
  Two lookups of port 9 in a row, the first connection closed by the remote end in
  between: the first returns attempt 0, the second attempt 1.
\<close>

lemma first_lookup_eq:
  "first_lookup =
     (Returned 0,
      empty_world\<lparr>clients := [(PortKey (Num 9), 0)],
                  attempts := (attempts empty_world)(0 := Connecting (Millis 500) (Port (Num 9))),
                  started := 1\<rparr>)"
  by (simp add: first_lookup_def eval_nat_numeral connectAgent_def ident_of_def empty_world_def)

theorem connectAgentLazy_reconnects_witness:
  "fst first_lookup = Returned 0
   \<and> fst (connectAgentLazy_run 5 (Called (Millis 500) (Some (Port (Num 9)))) closed_between)
       = Returned 1
   \<and> map_of (clients (snd (connectAgentLazy_run 5 (Called (Millis 500) (Some (Port (Num 9)))) closed_between)))
         (PortKey (Num 9)) = Some 1
   \<and> attempts (snd (connectAgentLazy_run 5 (Called (Millis 500) (Some (Port (Num 9)))) closed_between)) 1
       = Connecting (Millis 500) (Port (Num 9))"
proof -
  have w: "closed_between =
      empty_world\<lparr>clients := [(PortKey (Num 9), 0)],
                  attempts := (attempts empty_world)
                     (0 := Established (remote_disconnect (new_connection (Millis 500) (Port (Num 9))))),
                  started := 1\<rparr>"
    by (simp add: closed_between_def first_lookup_eq settle_def affect_def)
  have h1: "getAgentOptions (Some (Port (Num 9))) (settings_store closed_between)
              = (Inr (Port (Num 9)), settings_store closed_between)"
    by simp
  have h2: "map_of (clients closed_between) (ident_of (Port (Num 9))) = Some 0"
    by (simp add: w ident_of_def)
  have h3: "0 < started closed_between"
    by (simp add: w)
  have h4: "attempts closed_between 0
              = Established (remote_disconnect (new_connection (Millis 500) (Port (Num 9))))"
    by (simp add: w)
  have h5: "isClosed (remote_disconnect (new_connection (Millis 500) (Port (Num 9))))"
    by (simp add: remote_disconnect_def new_connection_def on_close_def)
  show ?thesis
    using connectAgentLazy_reconnects [OF h1 h2 h3 h4 h5 order_refl, of "Millis 500"]
    by (simp add: first_lookup_eq ident_of_def w)
qed

subsection \<open>\<^verbatim>\<open>disconnectAgents\<close>\<close>

declare disconnectAgents.simps [simp del]

lemma disconnectAgents_Nil: "clients w = [] \<Longrightarrow> disconnectAgents fates w = (Fulfilled (), w)"
  by (subst disconnectAgents.simps) simp

lemma disconnectAgents_Cons:
  assumes "clients w = (port, client) # rest"
  shows "disconnectAgents fates w =
     (case disconnect_entry fates port client w of
        (Fulfilled u, w') \<Rightarrow> disconnectAgents fates w'
      | (Rejected e, w') \<Rightarrow> (Rejected e, w')
      | (NeverSettles, w') \<Rightarrow> (NeverSettles, w'))"
  using assms by (subst disconnectAgents.simps) simp

lemma entry_established:
  assumes "attempts w h = Established c"
  shows "disconnect_entry fates k h w =
     (fst (close c),
      w\<lparr>clients := AList.delete k (clients w),
        attempts := (attempts w)(h := Established (snd (close c))),
        journal := journal w @ [Evicted k, CloseCalled h]\<rparr>)"
  using assms by (simp add: disconnect_entry_def Let_def settle_def evict_def split: prod.split)

lemma entry_refused:
  assumes "attempts w h = Refused e"
  shows "disconnect_entry fates k h w =
     (Fulfilled (),
      w\<lparr>clients := AList.delete k (clients w), journal := journal w @ [Evicted k]\<rparr>)"
  using assms by (simp add: disconnect_entry_def Let_def settle_def evict_def)

lemma entry_connects:
  assumes "attempts w h = Connecting t options" and "h < started w" and "fates h = Connects"
  shows "disconnect_entry fates k h w =
     (Fulfilled (),
      w\<lparr>clients := AList.delete k (clients w),
        attempts := (attempts w)(h := Established (snd (close (new_connection t options)))),
        journal := journal w @ [Evicted k, CloseCalled h]\<rparr>)"
  using assms
  by (simp add: disconnect_entry_def Let_def settle_def evict_def close_def client_close_def
      new_connection_def on_close_def)

lemma entry_fails:
  assumes "attempts w h = Connecting t options" and "h < started w" and "fates h = Fails e"
  shows "disconnect_entry fates k h w =
     (Fulfilled (),
      w\<lparr>clients := AList.delete k (clients w),
        attempts := (attempts w)(h := Refused e),
        journal := journal w @ [Evicted k]\<rparr>)"
  using assms by (simp add: disconnect_entry_def Let_def settle_def evict_def)

lemma entry_hangs:
  assumes "attempts w h = Connecting t options" and "\<not> (h < started w \<and> fates h \<noteq> Hangs)"
  shows "disconnect_entry fates k h w =
     (NeverSettles,
      w\<lparr>clients := AList.delete k (clients w), journal := journal w @ [Evicted k]\<rparr>)"
  using assms
  by (cases "fates h"; cases "h < started w")
    (simp_all add: disconnect_entry_def Let_def settle_def evict_def)

lemma close_closes: "isClosed (snd (close c))" "\<not> transport_open (snd (close c))"
  by (simp_all add: close_def client_close_def on_close_def split: option.split)

lemma close_closed_again:
  "isClosed c \<Longrightarrow> \<not> transport_open c \<Longrightarrow> fst (close c) = Fulfilled ()"
  by (simp add: close_def client_close_def)

lemma disconnect_entry_facts:
  "fst (disconnect_entry fates k h w) = entry_outcome fates w h
   \<and> clients (snd (disconnect_entry fates k h w)) = AList.delete k (clients w)
   \<and> started (snd (disconnect_entry fates k h w)) = started w
   \<and> journal (snd (disconnect_entry fates k h w))
       = journal w @ Evicted k # (if gets_connected fates w h then [CloseCalled h] else [])
   \<and> (\<forall>x. x \<noteq> h \<longrightarrow> attempts (snd (disconnect_entry fates k h w)) x = attempts w x)
   \<and> (entry_outcome fates w h = Fulfilled () \<longrightarrow>
         closed_or_refused (snd (disconnect_entry fates k h w)) h
         \<and> gets_connected fates (snd (disconnect_entry fates k h w)) h
             = gets_connected fates w h)"
proof (cases "attempts w h")
  case (Established c)
  then show ?thesis
    by (simp add: entry_established entry_outcome_def gets_connected_def
        closed_or_refused_def close_closes)
next
  case (Refused e)
  then show ?thesis
    by (simp add: entry_refused entry_outcome_def gets_connected_def
        closed_or_refused_def)
next
  case (Connecting t options)
  show ?thesis
  proof (cases "h < started w \<and> fates h \<noteq> Hangs")
    case False
    then show ?thesis
      using Connecting
      by (auto simp: entry_hangs entry_outcome_def gets_connected_def)
  next
    case True
    show ?thesis
    proof (cases "fates h")
      case Connects
      then show ?thesis
        using Connecting True
        by (simp add: entry_connects entry_outcome_def gets_connected_def
            closed_or_refused_def close_closes)
    next
      case (Fails e)
      then show ?thesis
        using Connecting True
        by (simp add: entry_fails entry_outcome_def gets_connected_def
            closed_or_refused_def)
    next
      case Hangs
      with True show ?thesis by simp
    qed
  qed
qed

lemma closed_or_refused_outcome:
  "closed_or_refused w x \<Longrightarrow> entry_outcome fates w x = Fulfilled ()"
  by (cases "attempts w x") (simp_all add: closed_or_refused_def entry_outcome_def close_closed_again)

lemma after_clean_entry:
  assumes "settles_cleanly fates w h"
  shows "entry_outcome fates (snd (disconnect_entry fates k h w)) x = entry_outcome fates w x
       \<and> gets_connected fates (snd (disconnect_entry fates k h w)) x = gets_connected fates w x"
proof (cases "x = h")
  case True
  have "closed_or_refused (snd (disconnect_entry fates k h w)) h"
    and "gets_connected fates (snd (disconnect_entry fates k h w)) h = gets_connected fates w h"
    using disconnect_entry_facts [of fates k h w] assms by (simp_all add: settles_cleanly_def)
  then show ?thesis
    using True assms closed_or_refused_outcome [of "snd (disconnect_entry fates k h w)" h fates]
    by (simp add: settles_cleanly_def)
next
  case False
  have a: "attempts (snd (disconnect_entry fates k h w)) x = attempts w x"
    using disconnect_entry_facts [of fates k h w] False by blast
  have s: "started (snd (disconnect_entry fates k h w)) = started w"
    using disconnect_entry_facts [of fates k h w] by blast
  show ?thesis
    unfolding entry_outcome_def gets_connected_def a s by simp
qed

lemma disconnect_entry_closed:
  assumes "closed_or_refused w x"
  shows "closed_or_refused (snd (disconnect_entry fates k h w)) x"
proof (cases "x = h")
  case True
  have "entry_outcome fates w h = Fulfilled ()"
    using assms True by (simp add: closed_or_refused_outcome)
  then show ?thesis
    using disconnect_entry_facts [of fates k h w] True by blast
next
  case False
  then have "attempts (snd (disconnect_entry fates k h w)) x = attempts w x"
    using disconnect_entry_facts [of fates k h w] by blast
  then show ?thesis
    using assms by (simp add: closed_or_refused_def)
qed

lemma disconnectAgents_closed:
  "closed_or_refused w x \<Longrightarrow> closed_or_refused (snd (disconnectAgents fates w)) x"
proof (induction fates w rule: disconnectAgents.induct)
  case (1 fates w)
  show ?case
  proof (cases "clients w")
    case Nil
    with "1.prems" show ?thesis by (simp add: disconnectAgents_Nil)
  next
    case (Cons entry rest)
    obtain port client where entry: "entry = (port, client)" by (cases entry)
    obtain r w' where d: "disconnect_entry fates port client w = (r, w')"
      by (cases "disconnect_entry fates port client w")
    have c: "closed_or_refused w' x"
      using disconnect_entry_closed [OF "1.prems", of fates port client] d by simp
    have unfold: "disconnectAgents fates w =
       (case r of Fulfilled u \<Rightarrow> disconnectAgents fates w'
        | Rejected e \<Rightarrow> (Rejected e, w') | NeverSettles \<Rightarrow> (NeverSettles, w'))"
      using Cons entry d by (simp add: disconnectAgents_Cons)
    show ?thesis
    proof (cases r)
      case (Fulfilled u)
      have "closed_or_refused (snd (disconnectAgents fates w')) x"
        using "1.IH" [OF Cons entry [symmetric] d [symmetric] Fulfilled c] .
      then show ?thesis
        unfolding unfold Fulfilled by simp
    next
      case (Rejected e)
      then show ?thesis
        unfolding unfold using c by simp
    next
      case NeverSettles
      then show ?thesis
        unfolding unfold using c by simp
    qed
  qed
qed

lemma disconnectAgents_stop:
  assumes "clients w = (k, h) # rest" and "\<not> settles_cleanly fates w h"
  shows "disconnectAgents fates w = disconnect_entry fates k h w"
proof -
  have "fst (disconnect_entry fates k h w) \<noteq> Fulfilled ()"
    using disconnect_entry_facts [of fates k h w] assms(2) by (simp add: settles_cleanly_def)
  then show ?thesis
    using assms(1)
    by (cases "disconnect_entry fates k h w"; cases "fst (disconnect_entry fates k h w)")
      (simp_all add: disconnectAgents_Cons)
qed

lemma disconnectAgents_go_on:
  assumes "clients w = (k, h) # rest" and "settles_cleanly fates w h"
  shows "disconnectAgents fates w = disconnectAgents fates (snd (disconnect_entry fates k h w))"
proof -
  have "fst (disconnect_entry fates k h w) = Fulfilled ()"
    using disconnect_entry_facts [of fates k h w] assms(2) by (simp add: settles_cleanly_def)
  then show ?thesis
    using assms(1)
    by (cases "disconnect_entry fates k h w") (simp add: disconnectAgents_Cons)
qed

lemma expected_journal_simps:
  "expected_journal fates w [] = []"
  "expected_journal fates w ((k, h) # entries)
     = Evicted k # (if gets_connected fates w h then [CloseCalled h] else [])
       @ expected_journal fates w entries"
  "expected_journal fates w (xs @ ys) = expected_journal fates w xs @ expected_journal fates w ys"
  by (simp_all add: expected_journal_def)

lemma disconnectAgents_run:
  assumes "clients w = entries" and "distinct (map fst entries)"
  shows "(case dropWhile (\<lambda>(k, h). settles_cleanly fates w h) entries of
            [] \<Rightarrow>
              fst (disconnectAgents fates w) = Fulfilled ()
              \<and> clients (snd (disconnectAgents fates w)) = []
              \<and> journal (snd (disconnectAgents fates w))
                  = journal w @ expected_journal fates w entries
          | (k, h) # later \<Rightarrow>
              fst (disconnectAgents fates w) = entry_outcome fates w h
              \<and> clients (snd (disconnectAgents fates w)) = later
              \<and> journal (snd (disconnectAgents fates w))
                  = journal w @ expected_journal fates w
                      (takeWhile (\<lambda>(k, h). settles_cleanly fates w h) entries @ [(k, h)])
              \<and> (\<forall>x. x \<notin> snd ` set (takeWhile (\<lambda>(k, h). settles_cleanly fates w h) entries)
                     \<and> x \<noteq> h
                     \<longrightarrow> attempts (snd (disconnectAgents fates w)) x = attempts w x))
       \<and> (\<forall>(k, h) \<in> set (takeWhile (\<lambda>(k, h). settles_cleanly fates w h) entries).
             closed_or_refused (snd (disconnectAgents fates w)) h)"
  using assms
proof (induction entries arbitrary: w)
  case Nil
  then show ?case
    by (simp add: disconnectAgents_Nil expected_journal_simps)
next
  case (Cons entry rest)
  obtain k h where entry: "entry = (k, h)" by (cases entry)
  have cw: "clients w = (k, h) # rest"
    using Cons.prems(1) entry by simp
  have fresh: "k \<notin> fst ` set rest" and d: "distinct (map fst rest)"
    using Cons.prems(2) entry by simp_all
  define w' where "w' = snd (disconnect_entry fates k h w)"
  note facts = disconnect_entry_facts [of fates k h w, folded w'_def]
  have cl: "clients w' = rest"
    using facts cw fresh by simp
  have j0: "journal w' = journal w @ expected_journal fates w [(k, h)]"
    using facts by (simp add: expected_journal_simps)
  show ?case
  proof (cases "settles_cleanly fates w h")
    case False
    have run: "disconnectAgents fates w = disconnect_entry fates k h w"
      by (rule disconnectAgents_stop [OF cw False])
    have "fst (disconnect_entry fates k h w) = entry_outcome fates w h"
      using disconnect_entry_facts [of fates k h w] by blast
    moreover have "\<forall>x. x \<noteq> h \<longrightarrow> attempts w' x = attempts w x"
      using facts by blast
    ultimately show ?thesis
      unfolding run entry using False cl j0 by (simp add: w'_def)
  next
    case True
    have run: "disconnectAgents fates w = disconnectAgents fates w'"
      unfolding w'_def by (rule disconnectAgents_go_on [OF cw True])
    note same = after_clean_entry [OF True, of k, folded w'_def]
    have eqP: "(\<lambda>(k, h). settles_cleanly fates w' h) = (\<lambda>(k, h). settles_cleanly fates w h)"
      using same by (simp add: settles_cleanly_def fun_eq_iff)
    have eqJ: "expected_journal fates w' xs = expected_journal fates w xs" for xs
      using same by (simp add: expected_journal_def)
    have eqO: "entry_outcome fates w' x = entry_outcome fates w x" for x
      using same by simp
    have closed_h: "closed_or_refused (snd (disconnectAgents fates w')) h"
      using facts True by (intro disconnectAgents_closed) (simp add: settles_cleanly_def)
    have frame: "x \<noteq> h \<Longrightarrow> attempts w' x = attempts w x" for x
      using facts by blast
    note IH = Cons.IH [OF cl d, unfolded eqP eqJ eqO]
    show ?thesis
    proof (cases "dropWhile (\<lambda>(k, h). settles_cleanly fates w h) rest")
      case Nil
      have dw: "dropWhile (\<lambda>(k, h). settles_cleanly fates w h) ((k, h) # rest) = []"
        and tw: "takeWhile (\<lambda>(k, h). settles_cleanly fates w h) ((k, h) # rest)
                  = (k, h) # takeWhile (\<lambda>(k, h). settles_cleanly fates w h) rest"
        using True Nil by simp_all
      show ?thesis
        unfolding run entry dw tw using IH [unfolded Nil] closed_h j0
        by (simp add: expected_journal_simps)
    next
      case (Cons stop later)
      obtain k' h' where stop: "stop = (k', h')" by (cases stop)
      have dw: "dropWhile (\<lambda>(k, h). settles_cleanly fates w h) ((k, h) # rest)
                  = (k', h') # later"
        and tw: "takeWhile (\<lambda>(k, h). settles_cleanly fates w h) ((k, h) # rest)
                  = (k, h) # takeWhile (\<lambda>(k, h). settles_cleanly fates w h) rest"
        using True Cons stop by simp_all
      show ?thesis
        unfolding run entry dw tw using IH [unfolded Cons stop] closed_h j0 frame
        by (simp add: expected_journal_simps)
    qed
  qed
qed

text \<open>
  C3 (as amended). The keys of the pool being distinct, as the keys of a \<^verbatim>\<open>Map\<close> are,
  \<^verbatim>\<open>disconnectAgents\<close> visits the entries in order, evicting each entry before it calls
  \<^verbatim>\<open>close\<close> on its connection, and passes over a rejected connection attempt without
  failing. It goes on as long as the attempts settle and the connections close without
  error (\<open>passed\<close>), and every connection so far is then closed. At the first entry whose
  \<^verbatim>\<open>close\<close> fails it fails with that error, and at the first entry whose attempt never
  settles it never returns: that entry has been evicted, the entries behind it stay
  cached, and no attempt other than the visited ones is touched. When every entry settles
  cleanly, it succeeds with the pool empty and every connection closed.
\<close>

theorem disconnectAgents_visits_in_order:
  assumes "distinct (map fst (clients w))"
  shows "(case stuck fates w of
            [] \<Rightarrow>
              fst (disconnectAgents fates w) = Fulfilled ()
              \<and> clients (snd (disconnectAgents fates w)) = []
              \<and> journal (snd (disconnectAgents fates w))
                  = journal w @ expected_journal fates w (clients w)
          | (k, h) # later \<Rightarrow>
              fst (disconnectAgents fates w) = entry_outcome fates w h
              \<and> fst (disconnectAgents fates w) \<noteq> Fulfilled ()
              \<and> clients (snd (disconnectAgents fates w)) = later
              \<and> journal (snd (disconnectAgents fates w))
                  = journal w @ expected_journal fates w (passed fates w @ [(k, h)])
              \<and> (\<forall>x. x \<notin> snd ` set (passed fates w) \<and> x \<noteq> h
                     \<longrightarrow> attempts (snd (disconnectAgents fates w)) x = attempts w x))
       \<and> (\<forall>(k, h) \<in> set (passed fates w). closed_or_refused (snd (disconnectAgents fates w)) h)
       \<and> clients w = passed fates w @ stuck fates w
       \<and> (stuck fates w = []) = (\<forall>(k, h) \<in> set (clients w). settles_cleanly fates w h)"
proof -
  note run = disconnectAgents_run [OF refl assms, of fates, folded passed_def stuck_def]
  have split: "clients w = passed fates w @ stuck fates w"
    by (simp add: passed_def stuck_def)
  have all: "(stuck fates w = []) = (\<forall>(k, h) \<in> set (clients w). settles_cleanly fates w h)"
    by (auto simp: stuck_def)
  show ?thesis
  proof (cases "stuck fates w")
    case Nil
    with run split all show ?thesis
      by simp
  next
    case (Cons stop later)
    obtain k h where stop: "stop = (k, h)" by (cases stop)
    have "dropWhile (\<lambda>(k, h). settles_cleanly fates w h) (clients w) \<noteq> []"
      using Cons by (simp add: stuck_def)
    from hd_dropWhile [OF this]
    have bad: "entry_outcome fates w h \<noteq> Fulfilled ()"
      using Cons stop by (simp add: settles_cleanly_def stuck_def)
    from run [unfolded Cons stop] split all bad show ?thesis
      unfolding Cons stop by simp
  qed
qed

lemma busy_world_entries:
  "stuck all_connect busy_world = []"
  "passed all_connect busy_world
     = [(PortKey (Num 9), 0), (PortKey (Num 10), 1), (SocketKey (js ''/tmp/a.sock''), 2)]"
  "expected_journal all_connect busy_world
       [(PortKey (Num 9), 0), (PortKey (Num 10), 1), (SocketKey (js ''/tmp/a.sock''), 2)]
     = [Evicted (PortKey (Num 9)), CloseCalled 0, Evicted (PortKey (Num 10)),
        Evicted (SocketKey (js ''/tmp/a.sock'')), CloseCalled 2]"
  by (simp_all add: stuck_def passed_def settles_cleanly_def entry_outcome_def
      expected_journal_def gets_connected_def busy_world_def all_connect_def
      close_def client_close_def new_connection_def)

lemma mixed_world_entries:
  "stuck all_connect mixed_world = [(PortKey (Num 9), 1), (PortKey (Num 10), 2)]"
  "passed all_connect mixed_world = [(PortKey (Num 8), 0)]"
  "entry_outcome all_connect mixed_world 1 = Rejected (TransportFailure 1)"
  "expected_journal all_connect mixed_world [(PortKey (Num 8), 0), (PortKey (Num 9), 1)]
     = [Evicted (PortKey (Num 8)), Evicted (PortKey (Num 9)), CloseCalled 1]"
  by (simp_all add: stuck_def passed_def settles_cleanly_def entry_outcome_def
      expected_journal_def gets_connected_def mixed_world_def all_connect_def
      close_def client_close_def new_connection_def stubborn_connection_def
      example_connection_def)

text \<open>
  A pool whose entries all settle cleanly is emptied and closed; in the third pool the
  rejected attempt is passed over, the failing close ends the loop with its error, and
  the last entry stays cached with its connection as it was.
\<close>

theorem disconnectAgents_visits_in_order_witness:
  "fst (disconnectAgents all_connect busy_world) = Fulfilled ()
   \<and> clients (snd (disconnectAgents all_connect busy_world)) = []
   \<and> journal (snd (disconnectAgents all_connect busy_world))
       = [Evicted (PortKey (Num 9)), CloseCalled 0, Evicted (PortKey (Num 10)),
          Evicted (SocketKey (js ''/tmp/a.sock'')), CloseCalled 2]
   \<and> closed_or_refused (snd (disconnectAgents all_connect busy_world)) 0
   \<and> closed_or_refused (snd (disconnectAgents all_connect busy_world)) 1
   \<and> closed_or_refused (snd (disconnectAgents all_connect busy_world)) 2
   \<and> fst (disconnectAgents all_connect mixed_world) = Rejected (TransportFailure 1)
   \<and> clients (snd (disconnectAgents all_connect mixed_world)) = [(PortKey (Num 10), 2)]
   \<and> journal (snd (disconnectAgents all_connect mixed_world))
       = [Evicted (PortKey (Num 8)), Evicted (PortKey (Num 9)), CloseCalled 1]
   \<and> attempts (snd (disconnectAgents all_connect mixed_world)) 2
       = Established (new_connection (Millis 500) (Port (Num 10)))"
proof -
  have d1: "distinct (map fst (clients busy_world))"
    by (simp add: busy_world_def js_def)
  have c1: "clients busy_world
      = [(PortKey (Num 9), 0), (PortKey (Num 10), 1), (SocketKey (js ''/tmp/a.sock''), 2)]"
    and j1: "journal busy_world = []"
    by (simp_all add: busy_world_def)
  note t1 = disconnectAgents_visits_in_order [OF d1, of all_connect,
      unfolded busy_world_entries list.case c1 j1]
  have busy: "fst (disconnectAgents all_connect busy_world) = Fulfilled ()
      \<and> clients (snd (disconnectAgents all_connect busy_world)) = []
      \<and> journal (snd (disconnectAgents all_connect busy_world))
          = [Evicted (PortKey (Num 9)), CloseCalled 0, Evicted (PortKey (Num 10)),
             Evicted (SocketKey (js ''/tmp/a.sock'')), CloseCalled 2]
      \<and> closed_or_refused (snd (disconnectAgents all_connect busy_world)) 0
      \<and> closed_or_refused (snd (disconnectAgents all_connect busy_world)) 1
      \<and> closed_or_refused (snd (disconnectAgents all_connect busy_world)) 2"
    using t1 by simp
  have d2: "distinct (map fst (clients mixed_world))"
    by (simp add: mixed_world_def)
  have j2: "journal mixed_world = []"
    and a2: "attempts mixed_world 2 = Established (new_connection (Millis 500) (Port (Num 10)))"
    by (simp_all add: mixed_world_def)
  note t2 = disconnectAgents_visits_in_order [OF d2, of all_connect,
      unfolded mixed_world_entries list.case prod.case j2]
  have "attempts (snd (disconnectAgents all_connect mixed_world)) 2 = attempts mixed_world 2"
    using t2 by simp
  then have mixed: "fst (disconnectAgents all_connect mixed_world) = Rejected (TransportFailure 1)
      \<and> clients (snd (disconnectAgents all_connect mixed_world)) = [(PortKey (Num 10), 2)]
      \<and> journal (snd (disconnectAgents all_connect mixed_world))
          = [Evicted (PortKey (Num 8)), Evicted (PortKey (Num 9)), CloseCalled 1]
      \<and> attempts (snd (disconnectAgents all_connect mixed_world)) 2
          = Established (new_connection (Millis 500) (Port (Num 10)))"
    using t2 a2 mixed_world_entries(3,4) by simp
  from busy mixed show ?thesis
    by blast
qed

text \<open>
  C3 as stated fails where a \<^verbatim>\<open>close\<close> fails: with two open connections cached, the first
  of which fails to close, \<^verbatim>\<open>disconnectAgents\<close> itself fails with that error, and the
  second entry is left in the pool with its connection open and its \<^verbatim>\<open>close\<close> never
  called.
\<close>

theorem disconnectAgents_close_failure_counterexample:
  "fst (disconnectAgents all_connect failing_world) = Rejected (TransportFailure 1)
   \<and> clients (snd (disconnectAgents all_connect failing_world)) = [(PortKey (Num 10), 1)]
   \<and> attempts (snd (disconnectAgents all_connect failing_world)) 1
       = Established (new_connection (Millis 500) (Port (Num 10)))
   \<and> transport_open (new_connection (Millis 500) (Port (Num 10)))
   \<and> journal (snd (disconnectAgents all_connect failing_world))
       = [Evicted (PortKey (Num 9)), CloseCalled 0]"
proof -
  have c: "clients failing_world = (PortKey (Num 9), 0) # [(PortKey (Num 10), 1)]"
    by (simp add: failing_world_def)
  have a: "attempts failing_world 0
            = Established ((new_connection (Millis 500) (Port (Num 9)))\<lparr>close_error := Some (TransportFailure 1)\<rparr>)"
    by (simp add: failing_world_def)
  show ?thesis
    unfolding disconnectAgents_Cons [OF c] entry_established [OF a]
    by (simp add: close_def client_close_def new_connection_def failing_world_def)
qed

subsection \<open>\<^verbatim>\<open>connectAgentLazy\<close> under concurrent calls\<close>

lemma resolves_to_load:
  assumes "resolves_to st None options"
  shows "\<exists>s. loadSettingsLazy st = Inr s \<and> continues_to st s options"
proof (cases "loadSettingsLazy st")
  case (Inl e)
  then show ?thesis
    using assms by (simp add: resolves_to_def)
next
  case (Inr s)
  then have "continues_to st s options"
    using assms
    by (auto simp: resolves_to_def continues_to_def saveSettings_def
        split: option.splits sum.splits prod.splits)
  with Inr show ?thesis by simp
qed

lemma resolves_to_advanced:
  assumes "resolves_to st override options" and "advanced options st st'"
  shows "resolves_to st' override options"
proof (cases "st' = st")
  case True
  then show ?thesis using assms by simp
next
  case False
  then have o: "options = Port defaultPort"
    and l: "load_error st' = load_error st"
    and p: "\<exists>sa. secretAgent (persisted st') = Some sa \<and> configured_port sa = Some defaultPort"
    using assms(2) by (auto simp: advanced_def split: option.splits)
  show ?thesis
  proof (cases override)
    case (Some given)
    then show ?thesis
      using assms(1) by (simp add: resolves_to_def)
  next
    case None
    from resolves_to_load [OF assms(1) [unfolded None]]
    have "load_error st = None"
      by (auto simp: loadSettingsLazy_def split: option.splits)
    then show ?thesis
      using None o l p by (auto simp: resolves_to_def loadSettingsLazy_def)
  qed
qed

lemma continues_to_advanced:
  "continues_to st s options \<Longrightarrow> advanced options st st' \<Longrightarrow> continues_to st' s options"
  by (auto simp: continues_to_def advanced_def split: option.splits)

lemma heading_stable:
  assumes "heading_for options st c" and "advanced options st st'"
  shows "heading_for options st' c"
proof (cases c)
  case (Loading t r)
  then show ?thesis
    using assms by (auto simp: heading_for_def continues_to_advanced split: sum.splits)
next
  case (Saving t r)
  then show ?thesis
    using assms by (simp add: heading_for_def)
next
  case (Running l)
  then show ?thesis
    using assms by (cases l) (simp_all add: heading_for_def resolves_to_advanced)
qed

lemma heading_stage: "heading_for options st c \<Longrightarrow> stage c < 4"
proof (cases c)
  case (Running l)
  assume "heading_for options st c"
  then show ?thesis
    using Running
    by (cases l; cases "case l of Called t override \<Rightarrow> override | _ \<Rightarrow> None")
      (simp_all add: heading_for_def)
qed simp_all

lemma received_stage: "received options h w c \<Longrightarrow> stage c = 4"
proof (cases c)
  case (Running l)
  assume "received options h w c"
  then show ?thesis
    using Running by (cases l) (simp_all add: received_def)
qed (simp_all add: received_def)


lemma truthy_defaultPort: "truthy defaultPort"
  by (simp add: truthy_def defaultPort_def)

lemma segment_loading:
  assumes "continues_to (settings_store w) s options"
    and "connectAgentLazy_segment (Loading t (Inr s)) w = (c', w')"
  shows "clients w' = clients w \<and> started w' = started w \<and> attempts w' = attempts w
       \<and> advanced options (settings_store w) (settings_store w')
       \<and> heading_for options (settings_store w') c' \<and> 1 < stage c'"
proof (cases "secretAgent s")
  case None
  then show ?thesis
    using assms by (auto simp: continues_to_def heading_for_def advanced_def)
next
  case (Some sa)
  show ?thesis
  proof (cases "configured_port sa")
    case (Some p)
    then show ?thesis
      using assms \<open>secretAgent s = Some sa\<close>
      by (auto simp: continues_to_def heading_for_def advanced_def)
  next
    case None
    then have e: "save_error (settings_store w) = None" and o: "options = Port defaultPort"
      using assms(1) \<open>secretAgent s = Some sa\<close> by (simp_all add: continues_to_def)
    have c': "c' = Saving t (Inr ())"
      and w': "w' = w\<lparr>settings_store := (settings_store w)
                 \<lparr>persisted := s\<lparr>secretAgent := Some (sa\<lparr>sa_port := Some defaultPort\<rparr>)\<rparr>,
                  writes := writes (settings_store w)
                            @ [s\<lparr>secretAgent := Some (sa\<lparr>sa_port := Some defaultPort\<rparr>)\<rparr>]\<rparr>\<rparr>"
      using assms(2) \<open>secretAgent s = Some sa\<close> None e
      by (auto simp: saveSettings_def)
    show ?thesis
      unfolding c' w' using o
      by (simp add: heading_for_def advanced_def configured_port_def truthy_defaultPort)
  qed
qed

lemma segment_heading:
  assumes "distinct (map fst (clients w))"
    and "map_of (clients w) (ident_of options) = None"
    and "heading_for options (settings_store w) c"
    and "connectAgentLazy_segment c w = (c', w')"
  shows "distinct (map fst (clients w'))
       \<and> advanced options (settings_store w) (settings_store w')
       \<and> stage c < stage c'
       \<and> ((clients w' = clients w \<and> started w' = started w \<and> attempts w' = attempts w
            \<and> heading_for options (settings_store w') c')
          \<or> (map_of (clients w') (ident_of options) = Some (started w)
              \<and> started w' = Suc (started w)
              \<and> attempt_for options (attempts w' (started w))
              \<and> c' = Running (Returned (started w))))"
proof (cases c)
  case (Loading t r)
  then obtain s where r: "r = Inr s" and "continues_to (settings_store w) s options"
    using assms(3) by (auto simp: heading_for_def split: sum.splits)
  from segment_loading [OF this(2) assms(4) [unfolded Loading r]]
  show ?thesis
    using assms(1) Loading by simp
next
  case (Saving t r)
  then show ?thesis
    using assms by (auto simp: heading_for_def advanced_def)
next
  case (Running l)
  show ?thesis
  proof (cases l)
    case (Called t override)
    show ?thesis
    proof (cases override)
      case None
      from resolves_to_load [of "settings_store w" options]
      obtain s where "loadSettingsLazy (settings_store w) = Inr s"
        and "continues_to (settings_store w) s options"
        using assms(3) Running Called None by (auto simp: heading_for_def)
      then show ?thesis
        using assms Running Called None by (auto simp: heading_for_def advanced_def)
    next
      case (Some given)
      then show ?thesis
        using assms Running Called
        by (auto simp: heading_for_def advanced_def resolves_to_def)
    qed
  next
    case (Resolved t options')
    then show ?thesis
      using assms Running
      by (auto simp: heading_for_def advanced_def connectAgent_def attempt_for_def
          update_conv' distinct_update)
  qed (use assms Running in \<open>simp_all add: heading_for_def\<close>)
qed

lemma segment_heading_entry:
  assumes "map_of (clients w) (ident_of options) = Some n0"
    and "heading_for options (settings_store w) c"
    and "connectAgentLazy_segment c w = (c', w')"
  shows "clients w' = clients w \<and> started w' = started w \<and> attempts w' = attempts w
       \<and> advanced options (settings_store w) (settings_store w')
       \<and> stage c < stage c'
       \<and> (heading_for options (settings_store w') c' \<or> received options n0 w' c')"
proof (cases c)
  case (Loading t r)
  then obtain s where r: "r = Inr s" and "continues_to (settings_store w) s options"
    using assms(2) by (auto simp: heading_for_def split: sum.splits)
  from segment_loading [OF this(2) assms(3) [unfolded Loading r]]
  show ?thesis
    using Loading by simp
next
  case (Saving t r)
  then show ?thesis
    using assms by (auto simp: heading_for_def advanced_def)
next
  case (Running l)
  show ?thesis
  proof (cases l)
    case (Called t override)
    show ?thesis
    proof (cases override)
      case None
      from resolves_to_load [of "settings_store w" options]
      obtain s where "loadSettingsLazy (settings_store w) = Inr s"
        and "continues_to (settings_store w) s options"
        using assms(2) Running Called None by (auto simp: heading_for_def)
      then show ?thesis
        using assms Running Called None by (auto simp: heading_for_def advanced_def)
    next
      case (Some given)
      then show ?thesis
        using assms Running Called
        by (auto simp: heading_for_def advanced_def resolves_to_def)
    qed
  next
    case (Resolved t options')
    then show ?thesis
      using assms Running
      by (auto simp: heading_for_def advanced_def received_def)
  qed (use assms Running in \<open>simp_all add: heading_for_def\<close>)
qed

lemma segment_received:
  assumes "received options n0 w c" and "attempt_for options (attempts w n0)"
    and "connectAgentLazy_segment c w = (c', w')"
  shows "w' = w \<and> received options n0 w c'"
proof (cases c)
  case (Running l)
  show ?thesis
  proof (cases l)
    case (Awaiting t options' k h)
    then show ?thesis
      using assms Running
      by (cases "attempts w n0") (auto simp: received_def attempt_for_def)
  qed (use assms Running in \<open>auto simp: received_def\<close>)
qed (use assms in \<open>simp_all add: received_def\<close>)

lemma settle_frame:
  "clients (settle f h w) = clients w" "started (settle f h w) = started w"
  "settings_store (settle f h w) = settings_store w"
  by (simp_all add: settle_def split: attempt.split fate.split)

lemma settle_attempt_for:
  "attempt_for options (attempts w x) \<Longrightarrow> attempt_for options (attempts (settle f h w) x)"
  by (cases "attempts w h"; cases f; cases "x = h")
    (simp_all add: settle_def attempt_for_def new_connection_def)

lemma settle_refused:
  "attempts w x = Refused e \<Longrightarrow> attempts (settle f h w) x = Refused e"
  by (cases "attempts w h"; cases f; cases "x = h") (simp_all add: settle_def)

lemma settle_received:
  assumes "received options n0 w c"
  shows "received options n0 (settle f h w) c"
proof (cases c)
  case (Running l)
  then show ?thesis
    using assms by (cases l) (simp_all add: received_def settle_refused)
qed (use assms in \<open>simp_all add: received_def\<close>)


lemma received_attempts:
  "attempts w' h = attempts w h \<Longrightarrow> received options h w' c = received options h w c"
  by (simp add: received_def split: concurrent_call.split lazy_call.split)

lemma list_all_update:
  assumes "list_all P xs" and "P x"
  shows "list_all P (xs[i := x])"
  using assms set_update_subset_insert [of xs i x] by (auto simp: list_all_iff)

lemma in_set_update_keep:
  assumes "x \<in> set xs" and "xs ! j = x \<longrightarrow> y = x"
  shows "x \<in> set (xs[j := y])"
proof -
  obtain i where i: "i < length xs" "xs ! i = x"
    using assms(1) by (auto simp: in_set_conv_nth)
  have "xs[j := y] ! i = x"
    using i assms(2) by (cases "i = j") simp_all
  moreover have "i < length (xs[j := y])"
    using i by simp
  ultimately show ?thesis
    using nth_mem by metis
qed

lemma count_Resume:
  "count_list (acts @ [Resume j]) (Resume i)
     = (if i = j then Suc (count_list acts (Resume i)) else count_list acts (Resume i))"
  "count_list (acts @ [Settle h f]) (Resume i) = count_list acts (Resume i)"
  by simp_all

lemma stage_update:
  assumes "\<forall>i < n. min 4 (stage (calls ! i) + count_list acts (Resume i)) \<le> stage (cs ! i)"
    and "length cs = n" and "j < n"
    and "stage (cs ! j) < stage c' \<or> (stage (cs ! j) = 4 \<and> stage c' = 4)"
  shows "\<forall>i < n. min 4 (stage (calls ! i) + count_list (acts @ [Resume j]) (Resume i))
                   \<le> stage (cs[j := c'] ! i)"
proof (intro allI impI)
  fix i assume i: "i < n"
  show "min 4 (stage (calls ! i) + count_list (acts @ [Resume j]) (Resume i))
          \<le> stage (cs[j := c'] ! i)"
  proof (cases "i = j")
    case False
    then show ?thesis
      using assms(1) i by (simp add: count_Resume)
  next
    case True
    have "min 4 (stage (calls ! j) + count_list acts (Resume j)) \<le> stage (cs ! j)"
      using assms(1,3) by simp
    then have "min 4 (Suc (stage (calls ! j) + count_list acts (Resume j))) \<le> stage c'"
      using assms(4) by auto
    then show ?thesis
      using True assms(2,3) by (simp add: count_Resume)
  qed
qed

lemma perform_settle:
  assumes "pool_inv options n0 calls acts (cs, w)"
  shows "pool_inv options n0 calls (acts @ [Settle h f]) (cs, settle f h w)"
proof (cases "map_of (clients w) (ident_of options) = None")
  case True
  then show ?thesis
    using assms by (simp add: pool_inv_def settle_frame count_Resume)
next
  case False
  then have r: "list_all (\<lambda>c. heading_for options (settings_store w) c
                              \<or> received options n0 w c) cs"
    using assms by (simp add: pool_inv_def)
  have "list_all (\<lambda>c. heading_for options (settings_store w) c
                       \<or> received options n0 (settle f h w) c) cs"
    using r by (auto simp: list_all_iff settle_received)
  then show ?thesis
    using assms False
    by (simp add: pool_inv_def settle_frame count_Resume settle_attempt_for)
qed


lemma perform_resume:
  assumes inv: "pool_inv options n0 calls acts (cs, w)"
    and j: "j < length cs"
    and seg: "connectAgentLazy_segment (cs ! j) w = (c', w')"
  shows "pool_inv options n0 calls (acts @ [Resume j]) (cs[j := c'], w')"
proof -
  have d: "distinct (map fst (clients w))" and len: "length cs = length calls"
    and stg: "\<forall>i < length calls.
                min 4 (stage (calls ! i) + count_list acts (Resume i)) \<le> stage (cs ! i)"
    using inv by (simp_all add: pool_inv_def)
  have jn: "j < length calls"
    using j len by simp
  show ?thesis
  proof (cases "map_of (clients w) (ident_of options) = None")
    case True
    then have n: "started w = n0"
      and hd: "list_all (heading_for options (settings_store w)) cs"
      using inv by (simp_all add: pool_inv_def)
    have hj: "heading_for options (settings_store w) (cs ! j)"
      using hd j by (simp add: list_all_length)
    note facts = segment_heading [OF d True hj seg]
    have d': "distinct (map fst (clients w'))"
      and adv: "advanced options (settings_store w) (settings_store w')"
      and up: "stage (cs ! j) < stage c'"
      using facts by simp_all
    have stg': "\<forall>i < length calls.
        min 4 (stage (calls ! i) + count_list (acts @ [Resume j]) (Resume i))
          \<le> stage (cs[j := c'] ! i)"
      using stage_update [OF stg len jn] up by blast
    have hd': "list_all (heading_for options (settings_store w')) cs"
      using hd adv by (auto simp: list_all_iff heading_stable)
    from facts consider
      (still) "clients w' = clients w" "started w' = started w"
        "heading_for options (settings_store w') c'"
      | (made) "map_of (clients w') (ident_of options) = Some (started w)"
        "started w' = Suc (started w)" "attempt_for options (attempts w' (started w))"
        "c' = Running (Returned (started w))"
      by blast
    then show ?thesis
    proof cases
      case still
      have "list_all (heading_for options (settings_store w')) (cs[j := c'])"
        using hd' still(3) by (rule list_all_update)
      then show ?thesis
        unfolding pool_inv_def using d' len stg' still(1,2) True n by simp
    next
      case made
      have "list_all (\<lambda>c. heading_for options (settings_store w') c
                           \<or> received options n0 w' c) cs"
        using hd' by (auto simp: list_all_iff)
      moreover have "received options n0 w' c'"
        using made(4) n by (simp add: received_def)
      ultimately have "list_all (\<lambda>c. heading_for options (settings_store w') c
                           \<or> received options n0 w' c) (cs[j := c'])"
        by (simp add: list_all_update)
      moreover have "Running (Returned n0) \<in> set (cs[j := c'])"
        using made(4) n j by (simp add: set_update_memI)
      ultimately show ?thesis
        unfolding pool_inv_def using d' len stg' made(1,2,3) n by simp
    qed
  next
    case False
    then have e: "map_of (clients w) (ident_of options) = Some n0"
      and n: "started w = Suc n0" and af: "attempt_for options (attempts w n0)"
      and all: "list_all (\<lambda>c. heading_for options (settings_store w) c
                              \<or> received options n0 w c) cs"
      and ret: "Running (Returned n0) \<in> set cs"
      using inv by (simp_all add: pool_inv_def)
    have cj: "heading_for options (settings_store w) (cs ! j) \<or> received options n0 w (cs ! j)"
      using all j by (simp add: list_all_length)
    show ?thesis
    proof (cases "received options n0 w (cs ! j)")
      case True
      from segment_received [OF True af seg]
      have w': "w' = w" and r': "received options n0 w c'"
        by simp_all
      have "stage (cs ! j) = 4 \<and> stage c' = 4"
        using True r' by (simp add: received_stage)
      then have stg': "\<forall>i < length calls.
          min 4 (stage (calls ! i) + count_list (acts @ [Resume j]) (Resume i))
            \<le> stage (cs[j := c'] ! i)"
        using stage_update [OF stg len jn] by blast
      have "cs ! j = Running (Returned n0) \<longrightarrow> c' = Running (Returned n0)"
        using seg by auto
      with ret have ret': "Running (Returned n0) \<in> set (cs[j := c'])"
        by (rule in_set_update_keep)
      have "list_all (\<lambda>c. heading_for options (settings_store w) c
                           \<or> received options n0 w c) (cs[j := c'])"
        using all r' by (simp add: list_all_update)
      then show ?thesis
        unfolding pool_inv_def w' using d len stg' e n af ret' by simp
    next
      case False
      then have hj: "heading_for options (settings_store w) (cs ! j)"
        using cj by simp
      note facts = segment_heading_entry [OF e hj seg]
      have fr: "clients w' = clients w" "started w' = started w" "attempts w' = attempts w"
        and adv: "advanced options (settings_store w) (settings_store w')"
        and up: "stage (cs ! j) < stage c'"
        and c': "heading_for options (settings_store w') c' \<or> received options n0 w' c'"
        using facts by simp_all
      have stg': "\<forall>i < length calls.
          min 4 (stage (calls ! i) + count_list (acts @ [Resume j]) (Resume i))
            \<le> stage (cs[j := c'] ! i)"
        using stage_update [OF stg len jn] up by blast
      have "cs ! j \<noteq> Running (Returned n0)"
        using hj by (auto simp: heading_for_def)
      with ret have ret': "Running (Returned n0) \<in> set (cs[j := c'])"
        by (simp add: in_set_update_keep)
      have "list_all (\<lambda>c. heading_for options (settings_store w') c
                           \<or> received options n0 w' c) cs"
        using all adv fr(3) received_attempts [of w' n0 w options]
        by (auto simp: list_all_iff heading_stable)
      then have "list_all (\<lambda>c. heading_for options (settings_store w') c
                           \<or> received options n0 w' c) (cs[j := c'])"
        using c' by (simp add: list_all_update)
      then show ?thesis
        unfolding pool_inv_def using d len stg' e n af ret' fr by simp
    qed
  qed
qed

lemma perform_preserves:
  assumes "pool_inv options n0 calls acts s"
  shows "pool_inv options n0 calls (acts @ [a]) (perform s a)"
proof -
  obtain cs w where s: "s = (cs, w)" by (cases s)
  show ?thesis
  proof (cases a)
    case (Settle h f)
    then show ?thesis
      using perform_settle [OF assms [unfolded s]] s by simp
  next
    case (Resume j)
    show ?thesis
    proof (cases "j < length cs")
      case True
      obtain c' w' where seg: "connectAgentLazy_segment (cs ! j) w = (c', w')"
        by (cases "connectAgentLazy_segment (cs ! j) w")
      from perform_resume [OF assms [unfolded s] True seg]
      show ?thesis
        using s Resume True seg by simp
    next
      case False
      have "length cs = length calls"
        using assms s by (simp add: pool_inv_def)
      then have "\<forall>i < length calls. count_list (acts @ [Resume j]) (Resume i)
                                      = count_list acts (Resume i)"
        using False by (auto simp: count_Resume)
      then show ?thesis
        using assms s Resume False by (simp add: pool_inv_def)
    qed
  qed
qed

lemma interleave_snoc: "interleave (acts @ [a]) s = perform (interleave acts s) a"
  by (simp add: interleave_def)

lemma initial_inv:
  assumes "map_of (clients w) (ident_of options) = None"
    and "distinct (map fst (clients w))"
    and "\<forall>c \<in> set calls. \<exists>t override.
           c = Running (Called t override) \<and> resolves_to (settings_store w) override options"
  shows "pool_inv options (started w) calls [] (calls, w)"
proof -
  have "list_all (heading_for options (settings_store w)) calls"
    using assms(3) by (auto simp: list_all_iff heading_for_def)
  then show ?thesis
    using assms(1,2) by (simp add: pool_inv_def)
qed

lemma interleave_preserves:
  "pool_inv options n0 calls [] (calls, w)
     \<Longrightarrow> pool_inv options n0 calls acts (interleave acts (calls, w))"
proof (induction acts rule: rev_induct)
  case Nil
  then show ?case by (simp add: interleave_def)
next
  case (snoc a acts)
  then show ?case
    unfolding interleave_snoc by (simp add: perform_preserves)
qed


text \<open>
  A call running on its own passes \<^verbatim>\<open>getAgentOptions\<close> in at most three segments, and is
  then where \<open>connectAgentLazy_step\<close> takes it in one.
\<close>

lemma segments_alone:
  "\<exists>n \<le> 3. interleave (replicate n (Resume 0)) ([Running (Called t override)], w)
     = (case connectAgentLazy_step (Called t override) w of (c', w') \<Rightarrow> ([Running c'], w'))"
proof (cases override)
  case (Some given)
  have "interleave (replicate 1 (Resume 0)) ([Running (Called t override)], w)
     = (case connectAgentLazy_step (Called t override) w of (c', w') \<Rightarrow> ([Running c'], w'))"
    using Some by (simp add: interleave_def)
  then show ?thesis
    by (intro exI [of _ 1]) simp
next
  case None
  have two: "replicate 2 (Resume 0) = [Resume 0, Resume 0]"
    and three: "replicate 3 (Resume 0) = [Resume 0, Resume 0, Resume 0]"
    by (simp_all add: eval_nat_numeral)
  show ?thesis
  proof (cases "loadSettingsLazy (settings_store w)")
    case (Inl e)
    have "interleave (replicate 2 (Resume 0)) ([Running (Called t override)], w)
       = (case connectAgentLazy_step (Called t override) w of (c', w') \<Rightarrow> ([Running c'], w'))"
      unfolding two using None Inl by (simp add: interleave_def)
    then show ?thesis
      by (intro exI [of _ 2]) simp
  next
    case (Inr s)
    show ?thesis
    proof (cases "case secretAgent s of Some sa \<Rightarrow> configured_port sa = None | None \<Rightarrow> False")
      case False
      have "interleave (replicate 2 (Resume 0)) ([Running (Called t override)], w)
         = (case connectAgentLazy_step (Called t override) w of (c', w') \<Rightarrow> ([Running c'], w'))"
        unfolding two using None Inr False
        by (auto simp: interleave_def split: option.splits)
      then show ?thesis
        by (intro exI [of _ 2]) simp
    next
      case True
      have "interleave (replicate 3 (Resume 0)) ([Running (Called t override)], w)
         = (case connectAgentLazy_step (Called t override) w of (c', w') \<Rightarrow> ([Running c'], w'))"
        unfolding three using None Inr True
        by (auto simp: interleave_def saveSettings_def split: option.splits)
      then show ?thesis
        by (intro exI [of _ 3]) simp
    qed
  qed
qed

lemma stores_before_returning:
  assumes "map_of (clients w) (ident_of options) = None"
  shows "connectAgentLazy_segment (Running (Resolved t options)) w
           = (Running (Returned (started w)),
              w\<lparr>clients := AList.update (ident_of options) (started w) (clients w),
                attempts := (attempts w)(started w := Connecting t options),
                started := Suc (started w)\<rparr>)"
  using assms by (simp add: connectAgent_def)

lemma received_delivers:
  assumes "received options h w c" and "attempt_for options (attempts w h)"
  shows "(\<forall>conn. attempts w h = Established conn \<longrightarrow>
            connectAgentLazy_segment c w = (Running (Returned h), w))
       \<and> (\<forall>e. attempts w h = Refused e \<longrightarrow>
            fst (connectAgentLazy_segment c w) \<in> {Running (Returned h), Running (Thrown e)})"
proof (cases c)
  case (Running l)
  then show ?thesis
    using assms by (cases l) (auto simp: received_def attempt_for_def)
qed (use assms in \<open>simp_all add: received_def\<close>)

text \<open>
  C1. Let the pool hold no entry for the identity of an endpoint. The segment of
  \<^verbatim>\<open>connectAgentLazy\<close> that finds this starts an attempt, stores it in the pool under
  the identity while it is still connecting, and returns it. Let any number of calls
  for that endpoint be made (each with the endpoint as override, or with no override
  where the settings resolve to it), let the event loop interleave their segments in
  any order, and let the environment settle connection attempts whenever and however it
  does. Then, at every moment: the pool never holds two entries for one identity; an
  attempt has been started, and is the pool's entry for the identity, exactly when some
  call has tested the pool, and no second one is ever started; no call is behind the
  stage its resumptions take it to, so that a call resumed four times (twice, when it
  has an override) has tested the pool; and every call that has tested the pool has
  received that one attempt: it has returned it, or awaits it, or has failed with the
  error the attempt was rejected with. Some call has returned it, it is an attempt for
  the endpoint, once it has resolved to a connection the next segment of every such
  call returns it, and once it is rejected every such call that has not returned it
  fails with its error. Closing a connection is not among the actions: what a call does
  with a closed connection is the subject of C5.
\<close>

theorem connectAgentLazy_shares_attempt:
  assumes "map_of (clients w) (ident_of options) = None"
    and "distinct (map fst (clients w))"
    and "\<forall>c \<in> set calls. \<exists>t override.
           c = Running (Called t override) \<and> resolves_to (settings_store w) override options"
  shows "(case connectAgentLazy_segment (Running (Resolved t options)) w of
            (c1, w1) \<Rightarrow>
              c1 = Running (Returned (started w))
              \<and> started w1 = Suc (started w)
              \<and> map_of (clients w1) (ident_of options) = Some (started w)
              \<and> attempts w1 (started w) = Connecting t options)
       \<and> (case interleave acts (calls, w) of
            (calls', w') \<Rightarrow>
              length calls' = length calls
              \<and> distinct (map fst (clients w'))
              \<and> started w' = (if \<exists>i < length calls. stage (calls' ! i) = 4
                               then Suc (started w) else started w)
              \<and> map_of (clients w') (ident_of options)
                  = (if \<exists>i < length calls. stage (calls' ! i) = 4
                     then Some (started w) else None)
              \<and> (\<forall>i < length calls.
                    min 4 (stage (calls ! i) + count_list acts (Resume i)) \<le> stage (calls' ! i)
                    \<and> (stage (calls' ! i) = 4 \<longrightarrow>
                         received options (started w) w' (calls' ! i)
                         \<and> attempt_for options (attempts w' (started w))
                         \<and> Running (Returned (started w)) \<in> set calls'
                         \<and> (\<forall>conn. attempts w' (started w) = Established conn \<longrightarrow>
                               connectAgentLazy_segment (calls' ! i) w'
                                 = (Running (Returned (started w)), w'))
                         \<and> (\<forall>e. attempts w' (started w) = Refused e \<longrightarrow>
                               fst (connectAgentLazy_segment (calls' ! i) w')
                                 \<in> {Running (Returned (started w)), Running (Thrown e)}))))"
proof -
  have first: "(case connectAgentLazy_segment (Running (Resolved t options)) w of
            (c1, w1) \<Rightarrow>
              c1 = Running (Returned (started w))
              \<and> started w1 = Suc (started w)
              \<and> map_of (clients w1) (ident_of options) = Some (started w)
              \<and> attempts w1 (started w) = Connecting t options)"
    unfolding stores_before_returning [OF assms(1)] by (simp add: update_conv')
  obtain cs w' where r: "interleave acts (calls, w) = (cs, w')"
    by (cases "interleave acts (calls, w)")
  have inv: "pool_inv options (started w) calls acts (cs, w')"
    using interleave_preserves [OF initial_inv [OF assms], of acts] r by simp
  then have d: "distinct (map fst (clients w'))" and len: "length cs = length calls"
    and stg: "\<forall>i < length calls.
                min 4 (stage (calls ! i) + count_list acts (Resume i)) \<le> stage (cs ! i)"
    by (simp_all add: pool_inv_def)
  have rest: "started w' = (if \<exists>i < length calls. stage (cs ! i) = 4
                               then Suc (started w) else started w)
      \<and> map_of (clients w') (ident_of options)
                  = (if \<exists>i < length calls. stage (cs ! i) = 4
                     then Some (started w) else None)
      \<and> (\<forall>i < length calls. stage (cs ! i) = 4 \<longrightarrow>
                         received options (started w) w' (cs ! i)
                         \<and> attempt_for options (attempts w' (started w))
                         \<and> Running (Returned (started w)) \<in> set cs
                         \<and> (\<forall>conn. attempts w' (started w) = Established conn \<longrightarrow>
                               connectAgentLazy_segment (cs ! i) w'
                                 = (Running (Returned (started w)), w'))
                         \<and> (\<forall>e. attempts w' (started w) = Refused e \<longrightarrow>
                               fst (connectAgentLazy_segment (cs ! i) w')
                                 \<in> {Running (Returned (started w)), Running (Thrown e)}))"
  proof (cases "map_of (clients w') (ident_of options) = None")
    case True
    then have n: "started w' = started w"
      and hd: "list_all (heading_for options (settings_store w')) cs"
      using inv by (simp_all add: pool_inv_def)
    have "\<forall>i < length calls. stage (cs ! i) \<noteq> 4"
    proof (intro allI impI)
      fix i assume "i < length calls"
      then have "heading_for options (settings_store w') (cs ! i)"
        using hd len by (simp add: list_all_length)
      from heading_stage [OF this] show "stage (cs ! i) \<noteq> 4" by simp
    qed
    then show ?thesis
      using True n by simp
  next
    case False
    then have e: "map_of (clients w') (ident_of options) = Some (started w)"
      and n: "started w' = Suc (started w)"
      and af: "attempt_for options (attempts w' (started w))"
      and all: "list_all (\<lambda>c. heading_for options (settings_store w') c
                              \<or> received options (started w) w' c) cs"
      and ret: "Running (Returned (started w)) \<in> set cs"
      using inv by (simp_all add: pool_inv_def)
    obtain k where k: "k < length cs" "cs ! k = Running (Returned (started w))"
      using ret by (auto simp: in_set_conv_nth)
    then have ex: "\<exists>i < length calls. stage (cs ! i) = 4"
      using len by (intro exI [of _ k]) simp
    have "\<forall>i < length calls. stage (cs ! i) = 4 \<longrightarrow>
                         received options (started w) w' (cs ! i)
                         \<and> attempt_for options (attempts w' (started w))
                         \<and> Running (Returned (started w)) \<in> set cs
                         \<and> (\<forall>conn. attempts w' (started w) = Established conn \<longrightarrow>
                               connectAgentLazy_segment (cs ! i) w'
                                 = (Running (Returned (started w)), w'))
                         \<and> (\<forall>e. attempts w' (started w) = Refused e \<longrightarrow>
                               fst (connectAgentLazy_segment (cs ! i) w')
                                 \<in> {Running (Returned (started w)), Running (Thrown e)})"
    proof (intro allI impI)
      fix i assume i: "i < length calls" and four: "stage (cs ! i) = 4"
      have "heading_for options (settings_store w') (cs ! i)
            \<or> received options (started w) w' (cs ! i)"
        using all i len by (simp add: list_all_length)
      then have rc: "received options (started w) w' (cs ! i)"
        using heading_stage [of options "settings_store w'" "cs ! i"] four by auto
      from received_delivers [OF rc af] rc af ret
      show "received options (started w) w' (cs ! i)
                         \<and> attempt_for options (attempts w' (started w))
                         \<and> Running (Returned (started w)) \<in> set cs
                         \<and> (\<forall>conn. attempts w' (started w) = Established conn \<longrightarrow>
                               connectAgentLazy_segment (cs ! i) w'
                                 = (Running (Returned (started w)), w'))
                         \<and> (\<forall>e. attempts w' (started w) = Refused e \<longrightarrow>
                               fst (connectAgentLazy_segment (cs ! i) w')
                                 \<in> {Running (Returned (started w)), Running (Thrown e)})"
        by blast
    qed
    then show ?thesis
      using e n ex by simp
  qed
  show ?thesis
    unfolding r using first len d stg rest by simp
qed

text \<open>
  The three calls of the example all return attempt 0, the only one started; the two
  calls without override have each written the default port to the settings.
\<close>

lemma example_run:
  "interleave example_schedule (three_calls, unconfigured_world)
     = ([Running (Returned 0), Running (Returned 0), Running (Returned 0)],
        unconfigured_world
          \<lparr>clients := [(PortKey (Num 42938), 0)],
           attempts := (attempts unconfigured_world)
                         (0 := Established (new_connection Infinity (Port (Num 42938)))),
           started := 1,
           settings_store := (store_of (Some (sa_with (Some (Num 42938)))))
              \<lparr>writes := [persisted (store_of (Some (sa_with (Some (Num 42938))))),
                          persisted (store_of (Some (sa_with (Some (Num 42938)))))]\<rparr>\<rparr>)"
  by (simp add: interleave_def example_schedule_def three_calls_def unconfigured_world_def
      empty_world_def connectAgent_def ident_of_def settle_def new_connection_def
      store_of_def sa_with_def loadSettingsLazy_def saveSettings_def configured_port_def
      truthy_def defaultPort_def)


theorem connectAgentLazy_shares_attempt_witness:
  "fst (interleave example_schedule (three_calls, unconfigured_world))
     = [Running (Returned 0), Running (Returned 0), Running (Returned 0)]
   \<and> clients (snd (interleave example_schedule (three_calls, unconfigured_world)))
       = [(PortKey (Num 42938), 0)]
   \<and> started (snd (interleave example_schedule (three_calls, unconfigured_world))) = 1
   \<and> attempts (snd (interleave example_schedule (three_calls, unconfigured_world))) 0
       = Established (new_connection Infinity (Port (Num 42938)))
   \<and> length (writes (settings_store
        (snd (interleave example_schedule (three_calls, unconfigured_world))))) = 2"
proof -
  have h1: "map_of (clients unconfigured_world) (ident_of (Port (Num 42938))) = None"
    by (simp add: unconfigured_world_def empty_world_def)
  have h2: "distinct (map fst (clients unconfigured_world))"
    by (simp add: unconfigured_world_def empty_world_def)
  have r: "resolves_to (settings_store unconfigured_world) None (Port (Num 42938))"
    by (simp add: resolves_to_def unconfigured_world_def store_of_def sa_with_def
        loadSettingsLazy_def saveSettings_def configured_port_def defaultPort_def)
  have h3: "\<forall>c \<in> set three_calls. \<exists>t override.
      c = Running (Called t override)
      \<and> resolves_to (settings_store unconfigured_world) override (Port (Num 42938))"
    using r by (simp add: three_calls_def resolves_to_def)
  have len: "length three_calls = 3"
    by (simp add: three_calls_def)
  have "\<exists>i < length three_calls.
          stage ([Running (Returned 0), Running (Returned 0), Running (Returned 0)] ! i) = 4"
    unfolding len by (intro exI [of _ 0]) simp
  then have "started (snd (interleave example_schedule (three_calls, unconfigured_world)))
               = Suc (started unconfigured_world)"
    using connectAgentLazy_shares_attempt [OF h1 h2 h3, of Infinity example_schedule]
    unfolding example_run by simp
  moreover have "started unconfigured_world = 0"
    by (simp add: unconfigured_world_def empty_world_def)
  ultimately show ?thesis
    by (simp add: example_run)
qed

end
